theory Spec2Isabelle
  imports Complex_Main "HOL-Library.AList" "HOL-Library.Char_ord" "HOL-Library.List_Lexorder"
begin

section \<open>Python values and the builtins the planner calls\<close>

text \<open>
  The weekly scheduler (\<^verbatim>\<open>weekly_ml.py\<close>) receives decoded JSON: a settings mapping and
  a list of subject mappings. A decoded JSON value is one of the following. A float is
  denoted by its exact value; the rounding of conversions to 53 bits and the range of a
  double are not modelled, and the infinities and NaN arise only from the texts
  \<^verbatim>\<open>inf\<close>, \<^verbatim>\<open>infinity\<close> and \<^verbatim>\<open>nan\<close> given to \<^verbatim>\<open>float()\<close>.
  A character is a code point below 256.
\<close>

datatype pyval =
    PNone
  | PBool bool
  | PInt int
  | PFloat rat
  | PStr string
  | PList "pyval list"
  | PDict "(string \<times> pyval) list"

datatype pyfloat = Finite rat | PosInf | NegInf | NaN

text \<open>The exceptions that occur in the modelled code.\<close>

datatype exn = ValueError | TypeError | AttributeError | OverflowError | KeyError string

subsection \<open>Text: whitespace, digits, case\<close>



definition is_blank :: "char \<Rightarrow> bool" where
  \<comment> \<open>the white space \<^verbatim>\<open>int()\<close> and \<^verbatim>\<open>float()\<close> allow around a numeral\<close>
  "is_blank c = ((of_char c :: nat) \<in> {9, 10, 11, 12, 13, 32, 133, 160})"

definition strip_blanks :: "string \<Rightarrow> string" where
  "strip_blanks s = rev (dropWhile is_blank (rev (dropWhile is_blank s)))"

definition is_digit :: "char \<Rightarrow> bool" where
  "is_digit c = (48 \<le> (of_char c :: nat) \<and> (of_char c :: nat) \<le> 57)"

definition digit_val :: "char \<Rightarrow> nat" where
  "digit_val c = of_char c - 48"

definition lower_char :: "char \<Rightarrow> char" where
  "lower_char c =
     (let n = (of_char c :: nat)
      in if (65 \<le> n \<and> n \<le> 90) \<or> (192 \<le> n \<and> n \<le> 222 \<and> n \<noteq> 215)
         then char_of (n + 32) else c)"

definition lower :: "string \<Rightarrow> string" where
  "lower s = map lower_char s"

text \<open>
  A run of decimal digits in which single underscores may stand between digits
  (the digit part of Python's numeric literals), and its value.
\<close>

fun digits_ok :: "string \<Rightarrow> bool" where
  "digits_ok [] = False"
| "digits_ok [c] = is_digit c"
| "digits_ok (c # d # cs) =
     (is_digit c \<and> (if d = CHR ''_'' then digits_ok cs else digits_ok (d # cs)))"

definition digits_val :: "string \<Rightarrow> nat" where
  "digits_val s = foldl (\<lambda>a c. 10 * a + digit_val c) 0 (filter (\<lambda>c. c \<noteq> CHR ''_'') s)"

text \<open>\<^verbatim>\<open>s.split(sep)\<close> for a one-character separator.\<close>

fun split :: "char \<Rightarrow> string \<Rightarrow> string list" where
  "split sep [] = [[]]"
| "split sep (c # cs) =
     (if c = sep then [] # split sep cs
      else (case split sep cs of [] \<Rightarrow> [[c]] | p # ps \<Rightarrow> (c # p) # ps))"

subsection \<open>\<^verbatim>\<open>int()\<close>, \<^verbatim>\<open>float()\<close>, \<^verbatim>\<open>round()\<close>, truth\<close>

definition signed :: "string \<Rightarrow> bool \<times> string" where
  \<comment> \<open>an optional sign in front: (negative, the rest)\<close>
  "signed s =
     (case s of
        [] \<Rightarrow> (False, [])
      | c # cs \<Rightarrow>
          if c = CHR ''-'' then (True, cs) else if c = CHR ''+'' then (False, cs)
          else (False, s))"

definition int_of_str :: "string \<Rightarrow> exn + int" where
  "int_of_str s =
     (let (neg, body) = signed (strip_blanks s)
      in if digits_ok body
         then Inr (if neg then - int (digits_val body) else int (digits_val body))
         else Inl ValueError)"

definition break_at :: "(char \<Rightarrow> bool) \<Rightarrow> string \<Rightarrow> string \<times> string option" where
  \<comment> \<open>the text before the first character satisfying p, and the text after it if any\<close>
  "break_at p s =
     (case dropWhile (\<lambda>c. \<not> p c) s of
        [] \<Rightarrow> (s, None)
      | _ # r \<Rightarrow> (takeWhile (\<lambda>c. \<not> p c) s, Some r))"

definition mantissa_of_str :: "string \<Rightarrow> rat option" where
  "mantissa_of_str s =
     (case break_at (\<lambda>c. c = CHR ''.'') s of
        (ip, None) \<Rightarrow> if digits_ok ip then Some (of_nat (digits_val ip)) else None
      | (ip, Some fp) \<Rightarrow>
          if (ip = [] \<and> digits_ok fp) \<or> (digits_ok ip \<and> (fp = [] \<or> digits_ok fp))
          then Some (of_nat (digits_val ip)
                 + of_nat (digits_val fp)
                   / 10 ^ length (filter (\<lambda>c. c \<noteq> CHR ''_'') fp))
          else None)"

definition exponent_of_str :: "string \<Rightarrow> int option" where
  "exponent_of_str s =
     (let (neg, body) = signed s
      in if digits_ok body
         then Some (if neg then - int (digits_val body) else int (digits_val body))
         else None)"

definition float_of_str :: "string \<Rightarrow> exn + pyfloat" where
  "float_of_str s =
     (let (neg, body) = signed (strip_blanks s); w = lower body
      in if w = ''inf'' \<or> w = ''infinity'' then Inr (if neg then NegInf else PosInf)
         else if w = ''nan'' then Inr NaN
         else
           (case break_at (\<lambda>c. c = CHR ''e'' \<or> c = CHR ''E'') body of
              (m, e) \<Rightarrow>
                (case (mantissa_of_str m,
                       (case e of None \<Rightarrow> Some 0 | Some x \<Rightarrow> exponent_of_str x)) of
                   (Some v, Some k) \<Rightarrow>
                     Inr (Finite ((if neg then - v else v) * 10 powi k))
                 | _ \<Rightarrow> Inl ValueError)))"

fun py_float :: "pyval \<Rightarrow> exn + pyfloat" where
  "py_float PNone = Inl TypeError"
| "py_float (PBool b) = Inr (Finite (if b then 1 else 0))"
| "py_float (PInt i) = Inr (Finite (of_int i))"
| "py_float (PFloat r) = Inr (Finite r)"
| "py_float (PStr s) = float_of_str s"
| "py_float (PList xs) = Inl TypeError"
| "py_float (PDict kvs) = Inl TypeError"

definition round_half_even :: "rat \<Rightarrow> int" where
  "round_half_even r =
     (let f = \<lfloor>r\<rfloor>; d = r - of_int f
      in if d < 1 / 2 then f else if 1 / 2 < d then f + 1
         else if even f then f else f + 1)"

fun py_round :: "pyfloat \<Rightarrow> exn + int" where
  "py_round (Finite r) = Inr (round_half_even r)"
| "py_round NaN = Inl ValueError"
| "py_round PosInf = Inl OverflowError"
| "py_round NegInf = Inl OverflowError"

fun truthy :: "pyval \<Rightarrow> bool" where
  "truthy PNone = False"
| "truthy (PBool b) = b"
| "truthy (PInt i) = (i \<noteq> 0)"
| "truthy (PFloat r) = (r \<noteq> 0)"
| "truthy (PStr s) = (s \<noteq> [])"
| "truthy (PList xs) = (xs \<noteq> [])"
| "truthy (PDict kvs) = (kvs \<noteq> [])"

subsection \<open>Formatting\<close>

definition digit_char :: "nat \<Rightarrow> char" where
  "digit_char d = ''0123456789'' ! d"

fun dec :: "nat \<Rightarrow> string" where
  "dec n = (if n < 10 then [digit_char n] else dec (n div 10) @ [digit_char (n mod 10)])"

declare dec.simps [simp del]

definition fmt_02d :: "int \<Rightarrow> string" where
  \<comment> \<open>the format \<^verbatim>\<open>{i:02d}\<close>: at least two characters, the sign counted, zero filled\<close>
  "fmt_02d i =
     (if i < 0 then CHR ''-'' # dec (nat (- i))
      else if i < 10 then CHR ''0'' # dec (nat i) else dec (nat i))"

definition format_time :: "int \<Rightarrow> int \<Rightarrow> string" where
  "format_time h m = fmt_02d h @ '':'' @ fmt_02d m"

subsection \<open>Equality, hashing, mappings\<close>

text \<open>
  Python's \<^verbatim>\<open>==\<close> on decoded JSON compares booleans, integers and floats by value,
  lists element by element and mappings as sets of entries: two values are equal when
  their canonical forms are the same.
\<close>

fun canon :: "pyval \<Rightarrow> pyval" where
  "canon PNone = PNone"
| "canon (PBool b) = PFloat (if b then 1 else 0)"
| "canon (PInt i) = PFloat (of_int i)"
| "canon (PFloat r) = PFloat r"
| "canon (PStr s) = PStr s"
| "canon (PList xs) = PList (map canon xs)"
| "canon (PDict kvs) = PDict (sort_key fst (map (\<lambda>kv. (fst kv, canon (snd kv))) kvs))"

definition py_eq :: "pyval \<Rightarrow> pyval \<Rightarrow> bool" where
  "py_eq a b = (canon a = canon b)"

fun hashable :: "pyval \<Rightarrow> bool" where
  "hashable (PList xs) = False"
| "hashable (PDict kvs) = False"
| "hashable v = True"

type_synonym pydict = "(string \<times> pyval) list"

definition dict_get :: "pydict \<Rightarrow> string \<Rightarrow> pyval \<Rightarrow> pyval" where
  \<comment> \<open>\<^verbatim>\<open>d.get(key, default)\<close>\<close>
  "dict_get d key dflt = (case map_of d key of None \<Rightarrow> dflt | Some v \<Rightarrow> v)"

definition lt_float :: "nat \<Rightarrow> pyfloat \<Rightarrow> bool" where
  \<comment> \<open>\<^verbatim>\<open><\<close> between a whole number of hours and a float\<close>
  "lt_float n x =
     (case x of Finite c \<Rightarrow> of_nat n < c | PosInf \<Rightarrow> True | NegInf \<Rightarrow> False | NaN \<Rightarrow> False)"

section \<open>The weekly scheduler: \<^verbatim>\<open>weekly_ml.generate_schedule\<close>\<close>

subsection \<open>Step 1: the settings\<close>

definition unpack_time :: "string list \<Rightarrow> exn + int \<times> int" where
  \<comment> \<open>\<^verbatim>\<open>start_hour, start_minute = map(int, parts)\<close>\<close>
  "unpack_time parts =
     (case parts of
        [a, b] \<Rightarrow>
          (case int_of_str a of
             Inl e \<Rightarrow> Inl e
           | Inr h \<Rightarrow> (case int_of_str b of Inl e \<Rightarrow> Inl e | Inr m \<Rightarrow> Inr (h, m)))
      | _ \<Rightarrow> Inl ValueError)"

definition read_settings :: "pydict \<Rightarrow> exn + pyfloat \<times> int \<times> int \<times> string list" where
  \<comment> \<open>the body of the \<^verbatim>\<open>try\<close>\<close>
  "read_settings settings =
     (case py_float (dict_get settings ''daily_study_hours'' (PInt 8)) of
        Inl e \<Rightarrow> Inl e
      | Inr max_daily_hours \<Rightarrow>
          (case dict_get settings ''start_time'' (PStr ''09:00'') of
             PStr t \<Rightarrow>
               (case unpack_time (split (CHR '':'') t) of
                  Inl e \<Rightarrow> Inl e
                | Inr (start_hour, start_minute) \<Rightarrow>
                    (case dict_get settings ''study_days'' (PDict []) of
                       PDict items \<Rightarrow>
                         Inr (max_daily_hours, start_hour, start_minute,
                              map fst (filter (\<lambda>kv. truthy (snd kv)) items))
                     | _ \<Rightarrow> Inl AttributeError))
           | _ \<Rightarrow> Inl AttributeError))"

definition sanitize :: "pydict \<Rightarrow> exn + pyfloat \<times> int \<times> int \<times> string list" where
  \<comment> \<open>\<^verbatim>\<open>except (ValueError, TypeError)\<close>: the defaults; any other exception leaves the function\<close>
  "sanitize settings =
     (case read_settings settings of
        Inl ValueError \<Rightarrow> Inr (Finite 8, 9, 0, [''mon'', ''tue'', ''wed'', ''thu'', ''fri''])
      | Inl TypeError \<Rightarrow> Inr (Finite 8, 9, 0, [''mon'', ''tue'', ''wed'', ''thu'', ''fri''])
      | Inl e \<Rightarrow> Inl e
      | Inr r \<Rightarrow> Inr r)"

subsection \<open>Step 2: the one-hour blocks\<close>

record block =
  subject :: pyval
  difficulty :: pyval
  priority :: int

definition difficulty_order :: "pyval \<Rightarrow> exn + int" where
  \<comment> \<open>\<^verbatim>\<open>difficulty_order.get(d, 2)\<close>: the key is hashed first\<close>
  "difficulty_order d =
     (if \<not> hashable d then Inl TypeError
      else Inr (if d = PStr ''Hard'' then 3 else if d = PStr ''Medium'' then 2
                else if d = PStr ''Easy'' then 1 else 2))"

definition subject_blocks :: "pydict \<Rightarrow> exn + block list" where
  \<comment> \<open>the body of the \<^verbatim>\<open>try\<close> for one subject\<close>
  "subject_blocks subj =
     (case py_float (dict_get subj ''total_hours'' (PInt 1)) of
        Inl e \<Rightarrow> Inl e
      | Inr x \<Rightarrow>
          (case py_round x of
             Inl e \<Rightarrow> Inl e
           | Inr hours \<Rightarrow>
               if hours \<le> 0 then Inr []
               else
                 (case difficulty_order (dict_get subj ''difficulty'' (PStr ''Medium'')) of
                    Inl e \<Rightarrow> Inl e
                  | Inr p \<Rightarrow>
                      Inr (replicate (nat hours)
                            \<lparr>subject = dict_get subj ''subject_name'' (PStr ''Unnamed''),
                             difficulty = dict_get subj ''difficulty'' (PStr ''Medium''),
                             priority = p\<rparr>))))"

fun make_blocks :: "pydict list \<Rightarrow> exn + block list" where
  "make_blocks [] = Inr []"
| "make_blocks (subj # rest) =
     (case subject_blocks subj of
        Inl ValueError \<Rightarrow> make_blocks rest
      | Inl TypeError \<Rightarrow> make_blocks rest
      | Inl e \<Rightarrow> Inl e
      | Inr bs \<Rightarrow> (case make_blocks rest of Inl e \<Rightarrow> Inl e | Inr others \<Rightarrow> Inr (bs @ others)))"

definition sort_blocks :: "block list \<Rightarrow> block list" where
  \<comment> \<open>\<^verbatim>\<open>sort(key=priority, reverse=True)\<close>: descending and stable\<close>
  "sort_blocks bs = sort_key (\<lambda>b. - priority b) bs"

subsection \<open>Step 3: round-robin placement\<close>

text \<open>
  A placed block has gained the keys \<^verbatim>\<open>start_time\<close> and \<^verbatim>\<open>end_time\<close>; consolidation
  adds \<^verbatim>\<open>duration_hs\<close>, the text of \<^verbatim>\<open>float(d)\<close> followed by \<^verbatim>\<open>h\<close>, of which the
  whole number \<open>d\<close> is kept (\<open>None\<close>: the key is absent).
\<close>

record session = block +
  start_time :: string
  end_time :: string
  duration_hs :: "int option"

definition weekdays :: "string list" where
  "weekdays =
     [''monday'', ''tuesday'', ''wednesday'', ''thursday'', ''friday'', ''saturday'', ''sunday'']"

type_synonym schedule = "(string \<times> session list) list"

definition empty_schedule :: schedule where
  "empty_schedule = map (\<lambda>day. (day, [])) weekdays"

text \<open>
  The inner \<^verbatim>\<open>for _ in range(len(day_cycle))\<close>: the first day from the cursor on, in
  cyclic order, whose hours spent are below the daily maximum, and the cursor where the
  scan stopped.
\<close>

fun find_day :: "pyfloat \<Rightarrow> string list \<Rightarrow> (string \<Rightarrow> nat) \<Rightarrow> nat \<Rightarrow> nat \<Rightarrow> string option \<times> nat" where
  "find_day max_daily_hours day_cycle spent 0 day_idx = (None, day_idx)"
| "find_day max_daily_hours day_cycle spent (Suc k) day_idx =
     (let current_day = day_cycle ! day_idx
      in if lt_float (spent current_day) max_daily_hours then (Some current_day, day_idx)
         else find_day max_daily_hours day_cycle spent k ((day_idx + 1) mod length day_cycle))"

record placement =
  schedule :: schedule
  daily_hours_spent :: "string \<Rightarrow> nat"
  day_idx :: nat

definition place_block ::
  "pyfloat \<Rightarrow> int \<Rightarrow> int \<Rightarrow> string list \<Rightarrow> placement \<Rightarrow> block \<Rightarrow> exn + placement" where
  \<comment> \<open>one round of the outer loop; \<^verbatim>\<open>schedule[current_day]\<close> raises on a name that is no key\<close>
  "place_block max_daily_hours start_hour start_minute day_cycle st b =
     (case find_day max_daily_hours day_cycle (daily_hours_spent st) (length day_cycle)
             (day_idx st) of
        (Some current_day, i) \<Rightarrow>
          (case map_of (schedule st) current_day of
             None \<Rightarrow> Inl (KeyError current_day)
           | Some sessions \<Rightarrow>
               (let h = start_hour + int (daily_hours_spent st current_day);
                    placed = \<lparr>subject = subject b, difficulty = difficulty b,
                              priority = priority b,
                              start_time = format_time h start_minute,
                              end_time = format_time (h + 1) start_minute,
                              duration_hs = None\<rparr>
                in Inr \<lparr>schedule = AList.update current_day (sessions @ [placed]) (schedule st),
                        daily_hours_spent =
                          (daily_hours_spent st)
                            (current_day := daily_hours_spent st current_day + 1),
                        day_idx = (i + 1) mod length day_cycle\<rparr>))
      | (None, i) \<Rightarrow> Inr (st\<lparr>day_idx := (i + 1) mod length day_cycle\<rparr>))"

fun place_all ::
  "pyfloat \<Rightarrow> int \<Rightarrow> int \<Rightarrow> string list \<Rightarrow> placement \<Rightarrow> block list \<Rightarrow> exn + placement" where
  "place_all max_daily_hours start_hour start_minute day_cycle st [] = Inr st"
| "place_all max_daily_hours start_hour start_minute day_cycle st (b # bs) =
     (case place_block max_daily_hours start_hour start_minute day_cycle st b of
        Inl e \<Rightarrow> Inl e
      | Inr st' \<Rightarrow> place_all max_daily_hours start_hour start_minute day_cycle st' bs)"

subsection \<open>Step 4: consolidation\<close>

definition hour_of :: "string \<Rightarrow> exn + int" where
  \<comment> \<open>\<^verbatim>\<open>int(t.split(':')[0])\<close>\<close>
  "hour_of t = (case split (CHR '':'') t of [] \<Rightarrow> int_of_str [] | p # ps \<Rightarrow> int_of_str p)"

definition finalize :: "session \<Rightarrow> exn + session" where
  "finalize current_session =
     (case hour_of (start_time current_session) of
        Inl e \<Rightarrow> Inl e
      | Inr start_h \<Rightarrow>
          (case hour_of (end_time current_session) of
             Inl e \<Rightarrow> Inl e
           | Inr end_h \<Rightarrow> Inr (current_session\<lparr>duration_hs := Some (end_h - start_h)\<rparr>)))"

fun merge_sessions :: "session \<Rightarrow> session list \<Rightarrow> exn + session list" where
  "merge_sessions current_session [] =
     (case finalize current_session of Inl e \<Rightarrow> Inl e | Inr s \<Rightarrow> Inr [s])"
| "merge_sessions current_session (next_session # rest) =
     (if py_eq (subject next_session) (subject current_session)
         \<and> py_eq (difficulty next_session) (difficulty current_session)
         \<and> start_time next_session = end_time current_session
      then merge_sessions (current_session\<lparr>end_time := end_time next_session\<rparr>) rest
      else
        (case finalize current_session of
           Inl e \<Rightarrow> Inl e
         | Inr s \<Rightarrow>
             (case merge_sessions next_session rest of
                Inl e \<Rightarrow> Inl e
              | Inr consolidated \<Rightarrow> Inr (s # consolidated))))"

definition consolidate :: "session list \<Rightarrow> exn + session list" where
  \<comment> \<open>one day: the sort by \<^verbatim>\<open>start_time\<close> (text order, stable), then the merge\<close>
  "consolidate sessions =
     (case sort_key start_time sessions of
        [] \<Rightarrow> Inr []
      | first_session # rest \<Rightarrow> merge_sessions first_session rest)"

fun consolidate_days :: "schedule \<Rightarrow> exn + schedule" where
  "consolidate_days [] = Inr []"
| "consolidate_days ((day, sessions) # rest) =
     (case consolidate sessions of
        Inl e \<Rightarrow> Inl e
      | Inr consolidated \<Rightarrow>
          (case consolidate_days rest of
             Inl e \<Rightarrow> Inl e
           | Inr final_schedule \<Rightarrow> Inr ((day, consolidated) # final_schedule)))"

subsection \<open>The whole function\<close>

text \<open>
  The function returns a mapping: either the single entry \<^verbatim>\<open>error\<close> or the seven
  weekdays. An exception that leaves the function is \<open>Inl\<close>. The warning printed for a
  block that found no day is not part of the result and is not modelled.
\<close>

datatype response = Error_response string | Schedule schedule

definition generate_schedule :: "pydict \<Rightarrow> pydict list \<Rightarrow> exn + response" where
  "generate_schedule settings subjects =
     (case sanitize settings of
        Inl e \<Rightarrow> Inl e
      | Inr (max_daily_hours, start_hour, start_minute, study_days) \<Rightarrow>
          if study_days = [] then Inr (Error_response ''No study days selected.'')
          else
            (case make_blocks subjects of
               Inl e \<Rightarrow> Inl e
             | Inr study_blocks \<Rightarrow>
                 (case place_all max_daily_hours start_hour start_minute (map lower study_days)
                         \<lparr>schedule = empty_schedule, daily_hours_spent = (\<lambda>day. 0),
                          day_idx = 0\<rparr>
                         (sort_blocks study_blocks) of
                    Inl e \<Rightarrow> Inl e
                  | Inr st \<Rightarrow>
                      (case consolidate_days (schedule st) of
                         Inl e \<Rightarrow> Inl e
                       | Inr final_schedule \<Rightarrow> Inr (Schedule final_schedule)))))"

section \<open>The daily recommendation: \<^verbatim>\<open>ml.recommend\<close>\<close>





definition clamp :: "rat \<Rightarrow> rat" where
  "clamp x = max (1 / 4) (min 12 x)"




section \<open>Reading a request and a schedule\<close>

text \<open>
  The active days of a request are the entries of the day cycle: the keys of
  \<^verbatim>\<open>study_days\<close> with a true value, in lower case, or the five default days when
  reading the settings raised \<^verbatim>\<open>ValueError\<close> or \<^verbatim>\<open>TypeError\<close>. The daily capacity is
  \<^verbatim>\<open>max_daily_hours\<close> as step 1 leaves it.
\<close>

definition active_days :: "pydict \<Rightarrow> exn + string list" where
  "active_days settings =
     (case sanitize settings of
        Inl e \<Rightarrow> Inl e
      | Inr (max_daily_hours, start_hour, start_minute, study_days) \<Rightarrow>
          Inr (map lower study_days))"

definition daily_capacity_hours :: "pydict \<Rightarrow> exn + pyfloat" where
  "daily_capacity_hours settings =
     (case sanitize settings of
        Inl e \<Rightarrow> Inl e
      | Inr (max_daily_hours, start_hour, start_minute, study_days) \<Rightarrow> Inr max_daily_hours)"

definition sessions_on :: "schedule \<Rightarrow> string \<Rightarrow> session list" where
  \<comment> \<open>the sessions a schedule holds under a day (none when the day is no key)\<close>
  "sessions_on sch day = (case map_of sch day of None \<Rightarrow> [] | Some sessions \<Rightarrow> sessions)"

definition session_hours :: "session \<Rightarrow> int" where
  "session_hours s = (case duration_hs s of None \<Rightarrow> 0 | Some d \<Rightarrow> d)"

definition day_hours :: "session list \<Rightarrow> int" where
  "day_hours sessions = sum_list (map session_hours sessions)"

text \<open>
  The hours of the sessions whose subject satisfies a condition, in one day and in a whole
  schedule, and the number of blocks of such subjects.
\<close>

definition hours_where :: "(pyval \<Rightarrow> bool) \<Rightarrow> session list \<Rightarrow> int" where
  "hours_where P sessions = sum_list (map session_hours (filter (\<lambda>s. P (subject s)) sessions))"


definition blocks_where :: "(pyval \<Rightarrow> bool) \<Rightarrow> 'a block_scheme list \<Rightarrow> nat" where
  "blocks_where P bs = length (filter (\<lambda>b. P (subject b)) bs)"


text \<open>
  The demand of a subject entry: its \<^verbatim>\<open>total_hours\<close> (1 when the key is missing) as
  \<^verbatim>\<open>int(round(float(...)))\<close> gives it, when both calls return. The entry asks for that
  many hours unless the number is negative or the entry is skipped. Hours are attributed
  to subjects by the name the sessions carry.
\<close>

definition subject_name_of :: "pydict \<Rightarrow> pyval" where
  "subject_name_of subj = dict_get subj ''subject_name'' (PStr ''Unnamed'')"

definition difficulty_of :: "pydict \<Rightarrow> pyval" where
  "difficulty_of subj = dict_get subj ''difficulty'' (PStr ''Medium'')"

definition rounded_total_hours :: "pydict \<Rightarrow> int option" where
  "rounded_total_hours subj =
     (case py_float (dict_get subj ''total_hours'' (PInt 1)) of
        Inl e \<Rightarrow> None
      | Inr x \<Rightarrow> (case py_round x of Inl e \<Rightarrow> None | Inr hours \<Rightarrow> Some hours))"

definition demanded_hours :: "pydict \<Rightarrow> int" where
  "demanded_hours subj =
     (case rounded_total_hours subj of
        None \<Rightarrow> 0
      | Some hours \<Rightarrow>
          if hours \<le> 0 \<or> \<not> hashable (dict_get subj ''difficulty'' (PStr ''Medium'')) then 0
          else hours)"






section \<open>What the placement loop maintains\<close>

text \<open>
  A placed block lasts one hour: its two times read back as the hours \<open>h\<close> and
  \<open>h + 1\<close>.
\<close>

definition unit_session :: "session \<Rightarrow> bool" where
  "unit_session s =
     (case hour_of (start_time s) of
        Inl e \<Rightarrow> False
      | Inr h \<Rightarrow> hour_of (end_time s) = Inr (h + 1))"

text \<open>
  What the placement loop maintains: the cursor stays inside the day cycle; each day's
  list holds one one-hour session per hour spent on the day; a day with hours spent was
  below the daily maximum when its last hour was placed; only days of the cycle have
  hours spent.
\<close>

definition placement_inv :: "pyfloat \<Rightarrow> string list \<Rightarrow> placement \<Rightarrow> bool" where
  "placement_inv max_daily_hours day_cycle st =
     (day_idx st < length day_cycle \<and>
      (\<forall>day sessions. map_of (schedule st) day = Some sessions \<longrightarrow>
         length sessions = daily_hours_spent st day \<and> (\<forall>s\<in>set sessions. unit_session s)) \<and>
      (\<forall>day. daily_hours_spent st day = 0
         \<or> lt_float (daily_hours_spent st day - 1) max_daily_hours) \<and>
      (\<forall>day. day \<notin> set day_cycle \<longrightarrow> daily_hours_spent st day = 0))"

section \<open>Example requests\<close>

definition two_day_settings :: pydict where
  "two_day_settings =
     [(''daily_study_hours'', PInt 2), (''start_time'', PStr ''09:00''),
      (''study_days'', PDict [(''monday'', PBool True), (''tuesday'', PBool True)])]"

definition math_three_hours :: "pydict list" where
  "math_three_hours =
     [[(''subject_name'', PStr ''Math''), (''total_hours'', PInt 3),
       (''difficulty'', PStr ''Hard'')]]"

definition two_day_schedule :: schedule where
  "two_day_schedule =
     [(''monday'',
       [\<lparr>subject = PStr ''Math'', difficulty = PStr ''Hard'', priority = 3,
         start_time = ''09:00'', end_time = ''11:00'', duration_hs = Some 2\<rparr>]),
      (''tuesday'',
       [\<lparr>subject = PStr ''Math'', difficulty = PStr ''Hard'', priority = 3,
         start_time = ''09:00'', end_time = ''10:00'', duration_hs = Some 1\<rparr>]),
      (''wednesday'', []), (''thursday'', []), (''friday'', []), (''saturday'', []),
      (''sunday'', [])]"

definition half_hour_settings :: pydict where
  "half_hour_settings =
     [(''daily_study_hours'', PFloat (5 / 2)),
      (''study_days'', PDict [(''monday'', PBool True)])]"

definition monday_three_hours :: schedule where
  "monday_three_hours =
     [(''monday'',
       [\<lparr>subject = PStr ''Math'', difficulty = PStr ''Hard'', priority = 3,
         start_time = ''09:00'', end_time = ''12:00'', duration_hs = Some 3\<rparr>]),
      (''tuesday'', []), (''wednesday'', []), (''thursday'', []), (''friday'', []),
      (''saturday'', []), (''sunday'', [])]"

definition unsorted_day :: "session list" where
  "unsorted_day =
     [\<lparr>subject = PStr ''Art'', difficulty = PStr ''Easy'', priority = 1,
       start_time = ''11:00'', end_time = ''12:00'', duration_hs = None\<rparr>,
      \<lparr>subject = PStr ''Math'', difficulty = PStr ''Hard'', priority = 3,
       start_time = ''10:00'', end_time = ''11:00'', duration_hs = None\<rparr>,
      \<lparr>subject = PStr ''Math'', difficulty = PStr ''Hard'', priority = 3,
       start_time = ''09:00'', end_time = ''10:00'', duration_hs = None\<rparr>]"

definition consolidated_day :: "session list" where
  "consolidated_day =
     [\<lparr>subject = PStr ''Math'', difficulty = PStr ''Hard'', priority = 3,
       start_time = ''09:00'', end_time = ''11:00'', duration_hs = Some 2\<rparr>,
      \<lparr>subject = PStr ''Art'', difficulty = PStr ''Easy'', priority = 1,
       start_time = ''11:00'', end_time = ''12:00'', duration_hs = Some 1\<rparr>]"

definition monday_settings :: pydict where
  "monday_settings = [(''study_days'', PDict [(''monday'', PBool True)])]"





definition listed_art :: pydict where
  "listed_art = [(''subject_name'', PStr ''Art''), (''difficulty'', PList [PStr ''Hard''])]"

definition plain_art :: pydict where
  "plain_art = [(''subject_name'', PStr ''Art'')]"

section \<open>The scheduler over a store of objects\<close>

text \<open>
  Python's mappings and lists are objects: a call receives references to the settings
  mapping and to the list of subjects, and an assignment to an item or a call of
  \<^verbatim>\<open>append\<close> or \<^verbatim>\<open>sort\<close> changes the object behind a reference. The store holds the
  objects, an address being a position in it: mappings from keys to values (the
  settings, a subject, a block or session), the counter \<^verbatim>\<open>daily_hours_spent\<close>, lists of
  references (the subjects, \<^verbatim>\<open>study_blocks\<close>, a day's sessions) and mappings from keys
  to references (\<^verbatim>\<open>schedule\<close>, \<^verbatim>\<open>final_schedule\<close>). A new object takes the next
  address. The values a mapping holds are kept as values, as above. An address that
  holds no object of the kind read there reads as the empty one; the addresses the
  function reads are those of its arguments and of the objects it created.
\<close>

datatype obj =
    Mapping pydict
  | Counter "(string \<times> nat) list"
  | Sequence "nat list"
  | Table "(string \<times> nat) list"

type_synonym store = "obj list"

definition alloc :: "obj \<Rightarrow> store \<Rightarrow> nat \<times> store" where
  "alloc ob h = (length h, h @ [ob])"

definition object_at :: "store \<Rightarrow> nat \<Rightarrow> obj option" where
  "object_at h a = (if a < length h then Some (h ! a) else None)"

definition mapping_at :: "store \<Rightarrow> nat \<Rightarrow> pydict" where
  "mapping_at h a = (case object_at h a of Some (Mapping d) \<Rightarrow> d | _ \<Rightarrow> [])"

definition counter_at :: "store \<Rightarrow> nat \<Rightarrow> (string \<times> nat) list" where
  "counter_at h a = (case object_at h a of Some (Counter c) \<Rightarrow> c | _ \<Rightarrow> [])"

definition sequence_at :: "store \<Rightarrow> nat \<Rightarrow> nat list" where
  "sequence_at h a = (case object_at h a of Some (Sequence xs) \<Rightarrow> xs | _ \<Rightarrow> [])"

definition table_at :: "store \<Rightarrow> nat \<Rightarrow> (string \<times> nat) list" where
  "table_at h a = (case object_at h a of Some (Table t) \<Rightarrow> t | _ \<Rightarrow> [])"

definition append_to :: "nat \<Rightarrow> nat \<Rightarrow> store \<Rightarrow> store" where
  \<comment> \<open>\<^verbatim>\<open>xs.append(x)\<close>\<close>
  "append_to xs x h = h[xs := Sequence (sequence_at h xs @ [x])]"

definition set_item :: "nat \<Rightarrow> string \<Rightarrow> pyval \<Rightarrow> store \<Rightarrow> store" where
  \<comment> \<open>\<^verbatim>\<open>d[key] = v\<close> on a mapping of values\<close>
  "set_item d key v h = h[d := Mapping (AList.update key v (mapping_at h d))]"

definition set_entry :: "nat \<Rightarrow> string \<Rightarrow> nat \<Rightarrow> store \<Rightarrow> store" where
  \<comment> \<open>\<^verbatim>\<open>d[key] = x\<close> where x is a list\<close>
  "set_entry d key x h = h[d := Table (AList.update key x (table_at h d))]"

definition sort_at :: "(nat \<Rightarrow> 'k :: linorder) \<Rightarrow> nat \<Rightarrow> store \<Rightarrow> store" where
  \<comment> \<open>\<^verbatim>\<open>xs.sort(key=...)\<close>, in place\<close>
  "sort_at key xs h = h[xs := Sequence (sort_key key (sequence_at h xs))]"

definition item_at :: "store \<Rightarrow> nat \<Rightarrow> string \<Rightarrow> pyval" where
  \<comment> \<open>\<^verbatim>\<open>d[key]\<close> for a key the mapping has\<close>
  "item_at h d key = dict_get (mapping_at h d) key PNone"

definition text_at :: "store \<Rightarrow> nat \<Rightarrow> string \<Rightarrow> string" where
  "text_at h d key = (case item_at h d key of PStr s \<Rightarrow> s | _ \<Rightarrow> [])"

definition priority_at :: "store \<Rightarrow> nat \<Rightarrow> int" where
  "priority_at h d = (case item_at h d ''priority'' of PInt p \<Rightarrow> p | _ \<Rightarrow> 0)"

definition block_mapping :: "block \<Rightarrow> pydict" where
  "block_mapping b =
     [(''subject'', subject b), (''difficulty'', difficulty b), (''priority'', PInt (priority b))]"

fun append_blocks :: "block list \<Rightarrow> nat \<Rightarrow> store \<Rightarrow> store" where
  "append_blocks [] study_blocks h = h"
| "append_blocks (b # bs) study_blocks h =
     (case alloc (Mapping (block_mapping b)) h of
        (a, h1) \<Rightarrow> append_blocks bs study_blocks (append_to study_blocks a h1))"

fun blocks_loop :: "nat list \<Rightarrow> nat \<Rightarrow> store \<Rightarrow> exn option \<times> store" where
  "blocks_loop [] study_blocks h = (None, h)"
| "blocks_loop (subj # rest) study_blocks h =
     (case object_at h subj of
        Some (Mapping d) \<Rightarrow>
          (case subject_blocks d of
             Inl ValueError \<Rightarrow> blocks_loop rest study_blocks h
           | Inl TypeError \<Rightarrow> blocks_loop rest study_blocks h
           | Inl e \<Rightarrow> (Some e, h)
           | Inr bs \<Rightarrow> blocks_loop rest study_blocks (append_blocks bs study_blocks h))
      | _ \<Rightarrow> (Some AttributeError, h))"

definition spent_at :: "store \<Rightarrow> nat \<Rightarrow> string \<Rightarrow> nat" where
  "spent_at h sp day = (case map_of (counter_at h sp) day of None \<Rightarrow> 0 | Some n \<Rightarrow> n)"

definition touch :: "nat \<Rightarrow> string \<Rightarrow> store \<Rightarrow> store" where
  \<comment> \<open>reading \<^verbatim>\<open>daily_hours_spent[day]\<close> enters a missing day with 0.0\<close>
  "touch sp day h =
     (case map_of (counter_at h sp) day of
        None \<Rightarrow> h[sp := Counter (counter_at h sp @ [(day, 0)])]
      | Some n \<Rightarrow> h)"

fun find_day_store ::
  "pyfloat \<Rightarrow> string list \<Rightarrow> nat \<Rightarrow> nat \<Rightarrow> nat \<Rightarrow> store \<Rightarrow> (string option \<times> nat) \<times> store" where
  "find_day_store max_daily_hours day_cycle sp 0 cursor h = ((None, cursor), h)"
| "find_day_store max_daily_hours day_cycle sp (Suc k) cursor h =
     (let current_day = day_cycle ! cursor; h1 = touch sp current_day h
      in if lt_float (spent_at h1 sp current_day) max_daily_hours
         then ((Some current_day, cursor), h1)
         else find_day_store max_daily_hours day_cycle sp k
                ((cursor + 1) mod length day_cycle) h1)"

definition place_block_store ::
  "pyfloat \<Rightarrow> int \<Rightarrow> int \<Rightarrow> string list \<Rightarrow> nat \<Rightarrow> nat \<Rightarrow> nat \<Rightarrow> nat \<Rightarrow> store
     \<Rightarrow> (exn + nat) \<times> store" where
  "place_block_store max_daily_hours start_hour start_minute day_cycle sched sp b cursor h =
     (case find_day_store max_daily_hours day_cycle sp (length day_cycle) cursor h of
        ((Some current_day, i), h1) \<Rightarrow>
          (let hr = start_hour + int (spent_at h1 sp current_day);
               h2 = set_item b ''start_time'' (PStr (format_time hr start_minute)) h1;
               h3 = set_item b ''end_time'' (PStr (format_time (hr + 1) start_minute)) h2
           in case map_of (table_at h3 sched) current_day of
                None \<Rightarrow> (Inl (KeyError current_day), h3)
              | Some sessions \<Rightarrow>
                  (let h4 = append_to sessions b h3;
                       h5 = h4[sp := Counter (AList.update current_day
                              (spent_at h4 sp current_day + 1) (counter_at h4 sp))]
                   in (Inr ((i + 1) mod length day_cycle), h5)))
      | ((None, i), h1) \<Rightarrow> (Inr ((i + 1) mod length day_cycle), h1))"

fun place_loop ::
  "pyfloat \<Rightarrow> int \<Rightarrow> int \<Rightarrow> string list \<Rightarrow> nat \<Rightarrow> nat \<Rightarrow> nat list \<Rightarrow> nat \<Rightarrow> store
     \<Rightarrow> exn option \<times> store" where
  "place_loop max_daily_hours start_hour start_minute day_cycle sched sp [] cursor h = (None, h)"
| "place_loop max_daily_hours start_hour start_minute day_cycle sched sp (b # bs) cursor h =
     (case place_block_store max_daily_hours start_hour start_minute day_cycle sched sp b
             cursor h of
        (Inl e, h1) \<Rightarrow> (Some e, h1)
      | (Inr i, h1) \<Rightarrow>
          place_loop max_daily_hours start_hour start_minute day_cycle sched sp bs i h1)"

definition finalize_store :: "nat \<Rightarrow> store \<Rightarrow> exn option \<times> store" where
  "finalize_store current_session h =
     (case hour_of (text_at h current_session ''start_time'') of
        Inl e \<Rightarrow> (Some e, h)
      | Inr start_h \<Rightarrow>
          (case hour_of (text_at h current_session ''end_time'') of
             Inl e \<Rightarrow> (Some e, h)
           | Inr end_h \<Rightarrow>
               (None, set_item current_session ''duration_hs'' (PInt (end_h - start_h)) h)))"

fun merge_store :: "nat \<Rightarrow> nat list \<Rightarrow> nat \<Rightarrow> store \<Rightarrow> exn option \<times> store" where
  "merge_store current_session [] consolidated h =
     (case finalize_store current_session h of
        (Some e, h1) \<Rightarrow> (Some e, h1)
      | (None, h1) \<Rightarrow> (None, append_to consolidated current_session h1))"
| "merge_store current_session (next_session # rest) consolidated h =
     (if py_eq (item_at h next_session ''subject'') (item_at h current_session ''subject'')
         \<and> py_eq (item_at h next_session ''difficulty'')
               (item_at h current_session ''difficulty'')
         \<and> text_at h next_session ''start_time'' = text_at h current_session ''end_time''
      then merge_store current_session rest consolidated
             (set_item current_session ''end_time'' (item_at h next_session ''end_time'') h)
      else
        (case finalize_store current_session h of
           (Some e, h1) \<Rightarrow> (Some e, h1)
         | (None, h1) \<Rightarrow>
             (case alloc (Mapping (mapping_at h1 next_session))
                     (append_to consolidated current_session h1) of
                (c, h2) \<Rightarrow> merge_store c rest consolidated h2)))"

fun days_loop :: "(string \<times> nat) list \<Rightarrow> nat \<Rightarrow> store \<Rightarrow> exn option \<times> store" where
  "days_loop [] final_schedule h = (None, h)"
| "days_loop ((day, sessions) # rest) final_schedule h =
     (if sequence_at h sessions = []
      then (case alloc (Sequence []) h of
              (no_sessions, h1) \<Rightarrow>
                days_loop rest final_schedule (set_entry final_schedule day no_sessions h1))
      else
        (let h1 = sort_at (\<lambda>a. text_at h a ''start_time'') sessions h
         in case alloc (Sequence []) h1 of
              (consolidated, h2) \<Rightarrow>
                (case alloc (Mapping (mapping_at h2 (hd (sequence_at h2 sessions)))) h2 of
                   (current_session, h3) \<Rightarrow>
                     (case merge_store current_session (tl (sequence_at h2 sessions))
                             consolidated h3 of
                        (Some e, h4) \<Rightarrow> (Some e, h4)
                      | (None, h4) \<Rightarrow>
                          days_loop rest final_schedule
                            (set_entry final_schedule day consolidated h4)))))"

fun alloc_lists :: "string list \<Rightarrow> store \<Rightarrow> (string \<times> nat) list \<times> store" where
  "alloc_lists [] h = ([], h)"
| "alloc_lists (day # days) h =
     (case alloc (Sequence []) h of
        (a, h1) \<Rightarrow> (case alloc_lists days h1 of (t, h2) \<Rightarrow> ((day, a) # t, h2)))"

definition generate_schedule_store :: "store \<Rightarrow> nat \<Rightarrow> nat \<Rightarrow> (exn + nat) \<times> store" where
  "generate_schedule_store h settings subjects =
     (case object_at h settings of
        Some (Mapping d) \<Rightarrow>
          (case sanitize d of
             Inl e \<Rightarrow> (Inl e, h)
           | Inr (max_daily_hours, start_hour, start_minute, study_days) \<Rightarrow>
               if study_days = []
               then (case alloc (Mapping [(''error'', PStr ''No study days selected.'')]) h of
                       (r, h1) \<Rightarrow> (Inr r, h1))
               else
                 (case alloc (Sequence []) h of
                    (study_blocks, h1) \<Rightarrow>
                      (case blocks_loop (sequence_at h1 subjects) study_blocks h1 of
                         (Some e, h2) \<Rightarrow> (Inl e, h2)
                       | (None, h2) \<Rightarrow>
                           (case alloc_lists weekdays
                                   (sort_at (\<lambda>a. - priority_at h2 a) study_blocks h2) of
                              (t, h3) \<Rightarrow>
                                (case alloc (Table t) h3 of
                                   (sched, h4) \<Rightarrow>
                                     (case alloc (Counter []) h4 of
                                        (sp, h5) \<Rightarrow>
                                          (case place_loop max_daily_hours start_hour
                                                  start_minute (map lower study_days) sched sp
                                                  (sequence_at h5 study_blocks) 0 h5 of
                                             (Some e, h6) \<Rightarrow> (Inl e, h6)
                                           | (None, h6) \<Rightarrow>
                                               (case alloc (Table []) h6 of
                                                  (final_schedule, h7) \<Rightarrow>
                                                    (case days_loop (table_at h7 sched)
                                                            final_schedule h7 of
                                                       (Some e, h8) \<Rightarrow> (Inl e, h8)
                                                     | (None, h8) \<Rightarrow>
                                                         (Inr final_schedule, h8))))))))))
      | _ \<Rightarrow> (Inl AttributeError, h))"


text \<open>
  What a call returns is read back from the store: the sessions of each day, each as
  the mapping it is.
\<close>

definition read_schedule :: "store \<Rightarrow> nat \<Rightarrow> (string \<times> pydict list) list" where
  "read_schedule h final_schedule =
     map (\<lambda>entry. (fst entry, map (mapping_at h) (sequence_at h (snd entry))))
       (table_at h final_schedule)"

text \<open>The two-day request in a store: the settings, the list of subjects, the subject.\<close>

definition two_day_store :: store where
  "two_day_store =
     [Mapping two_day_settings, Sequence [2], Mapping (hd math_three_hours)]"



text \<open>
  The store \<open>h\<close> keeps \<open>base\<close> when \<open>base\<close> is its beginning and the objects after it
  hold no reference into \<open>base\<close>.
\<close>

definition fresh_refs :: "nat \<Rightarrow> obj \<Rightarrow> bool" where
  "fresh_refs n ob =
     (case ob of
        Sequence xs \<Rightarrow> \<forall>r\<in>set xs. n \<le> r
      | Table t \<Rightarrow> \<forall>r\<in>snd ` set t. n \<le> r
      | _ \<Rightarrow> True)"

definition keeps :: "store \<Rightarrow> store \<Rightarrow> bool" where
  "keeps base h =
     (length base \<le> length h \<and> take (length base) h = base \<and>
      (\<forall>a. length base \<le> a \<longrightarrow> a < length h \<longrightarrow> fresh_refs (length base) (h ! a)))"

section \<open>Properties of the scheduler\<close>

subsection \<open>Formatting and reading back a time\<close>

lemma is_digit_plain:
  "is_digit c \<Longrightarrow> \<not> is_blank c \<and> c \<noteq> CHR '':'' \<and> c \<noteq> CHR ''_'' \<and> c \<noteq> CHR ''-'' \<and> c \<noteq> CHR ''+''"
  by (auto simp: is_digit_def is_blank_def)

lemma digit_char_lt_10:
  assumes "d < 10"
  shows "is_digit (digit_char d)" and "digit_val (digit_char d) = d"
proof -
  from assms have "d = 0 \<or> d = 1 \<or> d = 2 \<or> d = 3 \<or> d = 4 \<or> d = 5 \<or> d = 6
    \<or> d = 7 \<or> d = 8 \<or> d = 9"
    by arith
  then have "is_digit (digit_char d) \<and> digit_val (digit_char d) = d"
    by (elim disjE) (simp_all add: digit_char_def is_digit_def digit_val_def)
  then show "is_digit (digit_char d)" and "digit_val (digit_char d) = d"
    by simp_all
qed

lemma dec_not_Nil: "dec n \<noteq> []"
  by (subst dec.simps) simp

lemma dec_digits: "c \<in> set (dec n) \<Longrightarrow> is_digit c"
proof (induction n arbitrary: c rule: dec.induct)
  case (1 n)
  show ?case
  proof (cases "n < 10")
    case True
    with "1.prems" show ?thesis
      by (subst (asm) dec.simps) (simp add: digit_char_lt_10)
  next
    case False
    with "1.prems" have "c \<in> set (dec (n div 10)) \<or> c = digit_char (n mod 10)"
      by (subst (asm) dec.simps) auto
    with False "1.IH" show ?thesis
      by (auto simp: digit_char_lt_10)
  qed
qed

lemma digits_ok_plain: "s \<noteq> [] \<Longrightarrow> \<forall>c\<in>set s. is_digit c \<Longrightarrow> digits_ok s"
  by (induction s rule: digits_ok.induct) (auto dest: is_digit_plain)

lemma filter_plain: "\<forall>c\<in>set s. is_digit c \<Longrightarrow> filter (\<lambda>c. c \<noteq> CHR ''_'') s = s"
  by (induction s) (auto dest: is_digit_plain)

lemma digits_val_dec: "digits_val (dec n) = n"
proof -
  have "foldl (\<lambda>a c. 10 * a + digit_val c) 0 (dec n) = n"
  proof (induction n rule: dec.induct)
    case (1 n)
    show ?case
    proof (cases "n < 10")
      case True
      then show ?thesis
        by (subst dec.simps) (simp add: digit_char_lt_10)
    next
      case False
      with "1.IH" show ?thesis
        by (subst dec.simps) (simp add: digit_char_lt_10)
    qed
  qed
  then show ?thesis
    by (simp add: digits_val_def filter_plain dec_digits)
qed

lemma digits_val_zero_dec: "digits_val (CHR ''0'' # dec n) = n"
proof -
  have "digits_val (CHR ''0'' # dec n) = digits_val (dec n)"
    by (simp add: digits_val_def digit_val_def)
  then show ?thesis
    by (simp add: digits_val_dec)
qed

lemma strip_blanks_id:
  "s \<noteq> [] \<Longrightarrow> \<not> is_blank (hd s) \<Longrightarrow> \<not> is_blank (last s) \<Longrightarrow> strip_blanks s = s"
proof -
  assume s: "s \<noteq> []" and h: "\<not> is_blank (hd s)" and l: "\<not> is_blank (last s)"
  from s h have "dropWhile is_blank s = s"
    by (cases s) simp_all
  moreover from s l have "dropWhile is_blank (rev s) = rev s"
    by (cases "rev s") (simp_all add: hd_rev [symmetric])
  ultimately show ?thesis
    by (simp add: strip_blanks_def)
qed

lemma int_of_str_fmt_02d: "int_of_str (fmt_02d i) = Inr i"
proof -
  have last_dec: "is_digit (last (dec n))" for n
    by (rule dec_digits [OF last_in_set [OF dec_not_Nil]])
  have hd_dec: "is_digit (hd (dec n))" for n
    by (rule dec_digits [OF hd_in_set [OF dec_not_Nil]])
  consider "i < 0" | "0 \<le> i" "i < 10" | "10 \<le> i" by linarith
  then show ?thesis
  proof cases
    case 1
    let ?s = "CHR ''-'' # dec (nat (- i))"
    have "strip_blanks ?s = ?s"
      using last_dec [of "nat (- i)"]
      by (intro strip_blanks_id) (auto simp: dec_not_Nil is_blank_def dest: is_digit_plain)
    with 1 show ?thesis
      by (simp add: int_of_str_def fmt_02d_def signed_def digits_ok_plain dec_not_Nil
          dec_digits digits_val_dec)
  next
    case 2
    let ?s = "CHR ''0'' # dec (nat i)"
    have "strip_blanks ?s = ?s"
      using last_dec [of "nat i"]
      by (intro strip_blanks_id) (auto simp: dec_not_Nil is_blank_def dest: is_digit_plain)
    moreover have "is_digit (CHR ''0'')"
      by (simp add: is_digit_def)
    then have "digits_ok ?s"
      by (intro digits_ok_plain) (auto simp: dec_digits)
    ultimately show ?thesis
      using 2 by (simp add: int_of_str_def fmt_02d_def signed_def digits_val_zero_dec)
  next
    case 3
    let ?s = "dec (nat i)"
    have "strip_blanks ?s = ?s"
      using last_dec [of "nat i"] hd_dec [of "nat i"]
      by (intro strip_blanks_id) (auto simp: dec_not_Nil dest: is_digit_plain)
    moreover have "signed ?s = (False, ?s)"
      using hd_dec [of "nat i"] dec_not_Nil [of "nat i"]
      by (cases ?s) (auto simp: signed_def dest: is_digit_plain)
    ultimately show ?thesis
      using 3 by (simp add: int_of_str_def fmt_02d_def digits_ok_plain dec_not_Nil
          dec_digits digits_val_dec)
  qed
qed

lemma colon_notin_fmt_02d: "CHR '':'' \<notin> set (fmt_02d i)"
  by (auto simp: fmt_02d_def dest: dec_digits is_digit_plain)

lemma split_no_sep: "sep \<notin> set s \<Longrightarrow> split sep s = [s]"
  by (induction s) auto

lemma split_at_sep: "sep \<notin> set a \<Longrightarrow> split sep (a @ sep # b) = a # split sep b"
  by (induction a) (auto split: list.splits)

lemma hour_of_format_time: "hour_of (format_time h m) = Inr h"
proof -
  have "split (CHR '':'') (format_time h m) = [fmt_02d h, fmt_02d m]"
    by (simp add: format_time_def split_at_sep split_no_sep colon_notin_fmt_02d)
  then show ?thesis
    by (simp add: hour_of_def int_of_str_fmt_02d)
qed


subsection \<open>The placement loop keeps the seven days\<close>

lemma find_day_idx:
  "i < length dc \<Longrightarrow> snd (find_day c dc spent k i) < length dc"
proof (induction k arbitrary: i)
  case 0
  then show ?case by simp
next
  case (Suc k)
  from Suc.prems have "0 < length dc"
    by auto
  then have "(i + 1) mod length dc < length dc"
    by simp
  with Suc show ?case
    by (simp add: Let_def)
qed

lemma find_day_Some:
  "find_day c dc spent k i = (Some d, j) \<Longrightarrow> i < length dc \<Longrightarrow>
   d = dc ! j \<and> j < length dc \<and> lt_float (spent d) c"
proof (induction k arbitrary: i)
  case 0
  then show ?case by simp
next
  case (Suc k)
  show ?case
  proof (cases "lt_float (spent (dc ! i)) c")
    case True
    with Suc.prems show ?thesis
      by (auto simp: Let_def)
  next
    case False
    with Suc.prems have "find_day c dc spent k ((i + 1) mod length dc) = (Some d, j)"
      by (simp add: Let_def)
    moreover from Suc.prems have "0 < length dc"
      by auto
    then have "(i + 1) mod length dc < length dc"
      by simp
    ultimately show ?thesis
      by (rule Suc.IH)
  qed
qed

lemma place_block_idx:
  assumes "place_block c h m dc st b = Inr st'" and "dc \<noteq> []"
  shows "day_idx st' < length dc"
  using assms
  by (auto simp: place_block_def Let_def split: prod.splits option.splits)

lemma update_present_keys:
  assumes "map_of al k = Some v"
  shows "map fst (AList.update k w al) = map fst al"
proof -
  from assms have "(k, v) \<in> set al"
    by (rule map_of_SomeD)
  then have "k \<in> fst ` set al"
    by force
  then show ?thesis
    by (simp add: update_keys)
qed

lemma place_block_keys:
  assumes "place_block c h m dc st b = Inr st'"
  shows "map fst (schedule st') = map fst (schedule st)"
  using assms
  by (auto simp: place_block_def Let_def update_present_keys
      split: prod.splits option.splits)

lemma place_block_other_day:
  assumes "place_block c h m dc st b = Inr st'" and "day_idx st < length dc"
    and "day \<notin> set dc"
  shows "map_of (schedule st') day = map_of (schedule st) day"
proof (cases "find_day c dc (daily_hours_spent st) (length dc) (day_idx st)")
  case (Pair found i)
  show ?thesis
  proof (cases found)
    case None
    with Pair assms(1) show ?thesis
      by (auto simp: place_block_def)
  next
    case (Some d)
    with Pair assms(2) have "d = dc ! i" and "i < length dc"
      using find_day_Some by blast+
    with assms(3) have "d \<noteq> day"
      by auto
    with Pair Some assms(1) show ?thesis
      by (auto simp: place_block_def Let_def update_conv' split: option.splits)
  qed
qed

lemma place_all_keys:
  "place_all c h m dc st bs = Inr st' \<Longrightarrow> map fst (schedule st') = map fst (schedule st)"
proof (induction bs arbitrary: st)
  case Nil
  then show ?case by simp
next
  case (Cons b bs)
  then obtain st1 where 1: "place_block c h m dc st b = Inr st1"
    and 2: "place_all c h m dc st1 bs = Inr st'"
    by (auto split: sum.splits)
  from Cons.IH [OF 2] place_block_keys [OF 1] show ?case
    by simp
qed

lemma place_all_other_day:
  "place_all c h m dc st bs = Inr st' \<Longrightarrow> day_idx st < length dc \<Longrightarrow> day \<notin> set dc \<Longrightarrow>
   map_of (schedule st') day = map_of (schedule st) day"
proof (induction bs arbitrary: st)
  case Nil
  then show ?case by simp
next
  case (Cons b bs)
  then obtain st1 where 1: "place_block c h m dc st b = Inr st1"
    and 2: "place_all c h m dc st1 bs = Inr st'"
    by (auto split: sum.splits)
  from Cons.prems have "dc \<noteq> []"
    by auto
  with 1 have "day_idx st1 < length dc"
    by (rule place_block_idx)
  with Cons.IH [OF 2] Cons.prems(3) place_block_other_day [OF 1 Cons.prems(2,3)]
  show ?case
    by simp
qed

lemma consolidate_Nil: "consolidate [] = Inr []"
  by (simp add: consolidate_def)

lemma consolidate_days_keys:
  "consolidate_days sch = Inr out \<Longrightarrow> map fst out = map fst sch"
  by (induction sch arbitrary: out rule: consolidate_days.induct)
     (auto split: sum.splits)

lemma consolidate_days_empty_day:
  "consolidate_days sch = Inr out \<Longrightarrow> map_of sch day = Some [] \<Longrightarrow> map_of out day = Some []"
  by (induction sch arbitrary: out rule: consolidate_days.induct)
     (auto simp: consolidate_Nil split: sum.splits if_splits)

lemma map_of_empty_schedule: "day \<in> set weekdays \<Longrightarrow> map_of empty_schedule day = Some []"
  by (auto simp: empty_schedule_def weekdays_def)

lemma keys_empty_schedule: "map fst empty_schedule = weekdays"
  by (simp add: empty_schedule_def comp_def)

text \<open>What a call that returns a schedule went through.\<close>

lemma generate_schedule_ScheduleE:
  assumes "generate_schedule settings subjects = Inr (Schedule sch)"
  obtains c h m days blocks st where
    "sanitize settings = Inr (c, h, m, days)" and "days \<noteq> []"
    and "make_blocks subjects = Inr blocks"
    and "place_all c h m (map lower days)
           \<lparr>schedule = empty_schedule, daily_hours_spent = (\<lambda>day. 0), day_idx = 0\<rparr>
           (sort_blocks blocks) = Inr st"
    and "consolidate_days (schedule st) = Inr sch"
  using assms
  by (auto simp: generate_schedule_def split: sum.splits prod.splits if_splits)


subsection \<open>The hours of a consolidated day\<close>

lemma finalize_hours:
  assumes "hour_of (start_time c) = Inr a" and "hour_of (end_time c) = Inr b"
  shows "finalize c = Inr (c\<lparr>duration_hs := Some (b - a)\<rparr>)"
  using assms by (simp add: finalize_def)

text \<open>
  Merging from a current session that spans the hours \<open>a\<close> to \<open>b\<close> through one-hour
  sessions never fails, and the hours of the result are those of the current session plus
  one for each session merged or kept, also when only the sessions of some subjects are
  counted (the condition respecting equality of subjects).
\<close>

lemma merge_sessions_hours:
  assumes "\<And>x y. py_eq x y \<Longrightarrow> P x = P y"
  shows "hour_of (start_time cur) = Inr a \<Longrightarrow> hour_of (end_time cur) = Inr b \<Longrightarrow>
    \<forall>s\<in>set rest. unit_session s \<Longrightarrow>
    \<exists>out. merge_sessions cur rest = Inr out \<and>
      hours_where P out = (if P (subject cur) then b - a else 0) + int (blocks_where P rest)"
proof (induction rest arbitrary: cur a b)
  case Nil
  then show ?case
    by (simp add: finalize_hours hours_where_def blocks_where_def session_hours_def)
next
  case (Cons nxt rest)
  from Cons.prems(3) obtain c where c: "hour_of (start_time nxt) = Inr c"
    "hour_of (end_time nxt) = Inr (c + 1)"
    by (auto simp: unit_session_def split: sum.splits)
  from Cons.prems(3) have rest: "\<forall>s\<in>set rest. unit_session s"
    by simp
  show ?case
  proof (cases "py_eq (subject nxt) (subject cur) \<and> py_eq (difficulty nxt) (difficulty cur)
      \<and> start_time nxt = end_time cur")
    case True
    with c Cons.prems(2) have cb: "c = b"
      by simp
    let ?cur = "cur\<lparr>end_time := end_time nxt\<rparr>"
    have "hour_of (start_time ?cur) = Inr a" and "hour_of (end_time ?cur) = Inr (b + 1)"
      using Cons.prems(1) c cb by simp_all
    from Cons.IH [OF this rest] obtain out where out: "merge_sessions ?cur rest = Inr out"
      "hours_where P out = (if P (subject ?cur) then b + 1 - a else 0) + int (blocks_where P rest)"
      by blast
    from True assms have "P (subject nxt) = P (subject cur)"
      by blast
    with out True show ?thesis
      by (simp add: blocks_where_def)
  next
    case False
    from Cons.IH [OF c rest] obtain out where out: "merge_sessions nxt rest = Inr out"
      "hours_where P out = (if P (subject nxt) then c + 1 - c else 0) + int (blocks_where P rest)"
      by blast
    have "merge_sessions cur (nxt # rest) =
        (case finalize cur of
           Inl e \<Rightarrow> Inl e
         | Inr s \<Rightarrow>
             (case merge_sessions nxt rest of
                Inl e \<Rightarrow> Inl e
              | Inr consolidated \<Rightarrow> Inr (s # consolidated)))"
      by (simp only: merge_sessions.simps False if_False)
    with out Cons.prems(1,2) show ?thesis
      by (simp add: finalize_hours hours_where_def blocks_where_def session_hours_def)
  qed
qed

lemma blocks_where_sort_key: "blocks_where P (sort_key f bs) = blocks_where P bs"
  by (simp add: blocks_where_def filter_sort)

lemma consolidate_hours:
  assumes "\<And>x y. py_eq x y \<Longrightarrow> P x = P y" and "\<forall>s\<in>set sessions. unit_session s"
  shows "\<exists>out. consolidate sessions = Inr out \<and> hours_where P out = int (blocks_where P sessions)"
proof (cases "sort_key start_time sessions")
  case Nil
  then have "sessions = []"
    by (metis length_0_conv length_sort)
  then show ?thesis
    by (simp add: consolidate_def hours_where_def blocks_where_def)
next
  case (Cons first_session rest)
  have "set (sort_key start_time sessions) = set sessions"
    by simp
  with Cons assms(2) have u: "unit_session first_session" and r: "\<forall>s\<in>set rest. unit_session s"
    by auto
  from u obtain h where h: "hour_of (start_time first_session) = Inr h"
    "hour_of (end_time first_session) = Inr (h + 1)"
    by (auto simp: unit_session_def split: sum.splits)
  from merge_sessions_hours [of P, OF assms(1) h r] obtain out where
    out: "merge_sessions first_session rest = Inr out"
    "hours_where P out = (if P (subject first_session) then h + 1 - h else 0)
        + int (blocks_where P rest)"
    by blast
  have "blocks_where P sessions = blocks_where P (first_session # rest)"
    using blocks_where_sort_key [of P start_time sessions] Cons by simp
  with out Cons show ?thesis
    by (simp add: consolidate_def blocks_where_def)
qed

subsection \<open>What the placement loop maintains\<close>

lemma placement_inv_initial:
  assumes "dc \<noteq> []"
  shows "placement_inv c dc \<lparr>schedule = empty_schedule, daily_hours_spent = (\<lambda>day. 0), day_idx = 0\<rparr>"
proof -
  have "sessions = []" if "map_of empty_schedule day = Some sessions" for day sessions
    using that by (auto simp: empty_schedule_def weekdays_def split: if_splits)
  with assms show ?thesis
    by (fastforce simp: placement_inv_def)
qed

lemma unit_session_placed:
  "unit_session \<lparr>subject = x, difficulty = d, priority = p, start_time = format_time h m,
     end_time = format_time (h + 1) m, duration_hs = None\<rparr>"
  by (simp add: unit_session_def hour_of_format_time)

lemma place_block_inv:
  assumes "place_block c h m dc st b = Inr st'" and "placement_inv c dc st"
  shows "placement_inv c dc st'"
proof (cases "find_day c dc (daily_hours_spent st) (length dc) (day_idx st)")
  case (Pair found i)
  from assms(2) have idx: "day_idx st < length dc"
    by (simp add: placement_inv_def)
  then have pos: "0 < length dc"
    by auto
  show ?thesis
  proof (cases found)
    case None
    with Pair assms(1) have "st' = st\<lparr>day_idx := (i + 1) mod length dc\<rparr>"
      by (simp add: place_block_def)
    with assms(2) pos show ?thesis
      by (simp add: placement_inv_def)
  next
    case (Some d)
    with Pair idx have d: "d = dc ! i" "i < length dc" "lt_float (daily_hours_spent st d) c"
      using find_day_Some by blast+
    then have mem: "d \<in> set dc"
      by simp
    from Pair Some assms(1) obtain sessions where ss: "map_of (schedule st) d = Some sessions"
      by (auto simp: place_block_def split: option.splits)
    define placed where "placed = \<lparr>subject = subject b, difficulty = difficulty b,
      priority = priority b,
      start_time = format_time (h + int (daily_hours_spent st d)) m,
      end_time = format_time (h + int (daily_hours_spent st d) + 1) m,
      duration_hs = None\<rparr>"
    from Pair Some ss assms(1) have st': "st' = \<lparr>schedule = AList.update d (sessions @ [placed]) (schedule st),
        daily_hours_spent = (daily_hours_spent st)(d := daily_hours_spent st d + 1),
        day_idx = (i + 1) mod length dc\<rparr>"
      by (simp add: place_block_def Let_def placed_def)
    have u: "unit_session placed"
      unfolding placed_def by (rule unit_session_placed)
    from assms(2) have lists: "\<And>day sessions. map_of (schedule st) day = Some sessions \<Longrightarrow>
         length sessions = daily_hours_spent st day \<and> (\<forall>s\<in>set sessions. unit_session s)"
      and below: "\<And>day. daily_hours_spent st day = 0
         \<or> lt_float (daily_hours_spent st day - 1) c"
      and outside: "\<And>day. day \<notin> set dc \<Longrightarrow> daily_hours_spent st day = 0"
      by (simp_all add: placement_inv_def)
    have "day_idx st' < length dc"
      using st' pos by simp
    moreover have "length sessions' = daily_hours_spent st' day \<and> (\<forall>s\<in>set sessions'. unit_session s)"
      if "map_of (schedule st') day = Some sessions'" for day sessions'
    proof (cases "day = d")
      case True
      with that st' have "sessions' = sessions @ [placed]"
        by (simp add: update_conv')
      with lists [OF ss] u True st' show ?thesis
        by auto
    next
      case False
      with that st' have "map_of (schedule st) day = Some sessions'"
        by (simp add: update_conv')
      from lists [OF this] False st' show ?thesis
        by simp
    qed
    moreover have "daily_hours_spent st' day = 0 \<or> lt_float (daily_hours_spent st' day - 1) c"
      for day
      using below [of day] d(3) st' by (cases "day = d") simp_all
    moreover have "daily_hours_spent st' day = 0" if "day \<notin> set dc" for day
      using outside [OF that] that mem st' by auto
    ultimately show ?thesis
      unfolding placement_inv_def by blast
  qed
qed

lemma place_all_inv:
  "place_all c h m dc st bs = Inr st' \<Longrightarrow> placement_inv c dc st \<Longrightarrow> placement_inv c dc st'"
proof (induction bs arbitrary: st)
  case Nil
  then show ?case by simp
next
  case (Cons b bs)
  then obtain st1 where 1: "place_block c h m dc st b = Inr st1"
    and 2: "place_all c h m dc st1 bs = Inr st'"
    by (auto split: sum.splits)
  from place_block_inv [OF 1 Cons.prems(2)] Cons.IH [OF 2] show ?case
    by simp
qed

lemma consolidate_days_lookup:
  "consolidate_days sch = Inr out \<Longrightarrow> map_of out day = Some sessions' \<Longrightarrow>
   \<exists>sessions. map_of sch day = Some sessions \<and> consolidate sessions = Inr sessions'"
  by (induction sch arbitrary: out rule: consolidate_days.induct)
     (auto split: sum.splits if_splits)

lemma spent_le_ceiling:
  assumes "n = 0 \<or> lt_float (n - 1) (Finite c)"
  shows "int n \<le> max 0 \<lceil>c\<rceil>"
proof (cases "n = 0")
  case True
  then show ?thesis by simp
next
  case False
  with assms have "of_nat (n - 1) < c"
    by (simp add: lt_float_def)
  then have "of_int (int (n - 1)) < c"
    by simp
  then have "int (n - 1) < \<lceil>c\<rceil>"
    by (simp only: less_ceiling_iff)
  with False show ?thesis
    by linarith
qed


subsection \<open>Counting blocks\<close>














subsection \<open>No study days\<close>



subsection \<open>The two-day scenario\<close>

text \<open>
  C3. The scenario: two hours a day from 09:00, study days \<^verbatim>\<open>mon\<close> and \<^verbatim>\<open>tue\<close>, one
  subject Math of three hours, Hard. The specification expects Monday to hold one Math
  session 09:00 to 11:00 and Tuesday one Math session 09:00 to 10:00. The function keeps
  its schedule under the full weekday names while the day cycle holds the keys of
  \<^verbatim>\<open>study_days\<close> in lower case, so placing the first block looks \<^verbatim>\<open>mon\<close> up in the
  schedule and the call ends with \<^verbatim>\<open>KeyError\<close>: no schedule is returned.
\<close>

theorem scenario_mon_tue_raises:
  "generate_schedule
     [(''daily_study_hours'', PInt 2), (''start_time'', PStr ''09:00''),
      (''study_days'', PDict [(''mon'', PBool True), (''tue'', PBool True)])]
     [[(''subject_name'', PStr ''Math''), (''total_hours'', PInt 3),
       (''difficulty'', PStr ''Hard'')]]
   = Inl (KeyError ''mon'')"
  by code_simp

text \<open>
  With the days named in full the same request gives the schedule the scenario describes.
\<close>

lemma scenario_monday_tuesday:
  "generate_schedule two_day_settings math_three_hours = Inr (Schedule two_day_schedule)"
  by code_simp

lemma active_days_two_day_settings:
  "active_days two_day_settings = Inr [''monday'', ''tuesday'']"
  by code_simp

subsection \<open>The daily capacity\<close>

text \<open>
  C1. The specification bounds the hours of every day by the daily capacity, which the
  function reads with \<^verbatim>\<open>float()\<close> and names \<^verbatim>\<open>max_daily_hours\<close>. The loop places a
  one-hour block on a day whenever the hours spent there are below the capacity, without
  asking whether the hour still fits: with a capacity of 2.5 hours and one subject of three
  hours, Monday holds three hours, half an hour more than the capacity.
\<close>

theorem capacity_exceeded_by_fraction:
  "generate_schedule half_hour_settings math_three_hours = Inr (Schedule monday_three_hours) \<and>
   daily_capacity_hours half_hour_settings = Inr (Finite (5 / 2)) \<and>
   active_days half_hour_settings = Inr [''monday''] \<and>
   day_hours (sessions_on monday_three_hours ''monday'') = 3 \<and>
   \<not> (of_int (day_hours (sessions_on monday_three_hours ''monday'')) \<le> (5 / 2 :: rat))"
  by code_simp

text \<open>
  What the guard does ensure: whenever the call returns a schedule and the daily capacity
  is a finite number \<open>c\<close>, the hours of the sessions of every day are at most \<open>c\<close>
  rounded up to a whole number of hours, and at most 0 when \<open>c\<close> is negative. For a
  capacity that is a whole number of hours this is the bound of the specification.
\<close>

lemma day_hours_within_capacity:
  assumes "generate_schedule settings subjects = Inr (Schedule sch)"
    and "daily_capacity_hours settings = Inr (Finite c)"
  shows "day_hours (sessions_on sch day) \<le> max 0 \<lceil>c\<rceil>"
proof (cases "map_of sch day")
  case None
  then show ?thesis
    by (simp add: sessions_on_def day_hours_def)
next
  case (Some sessions')
  from assms(1) obtain c' h m study_days blocks st where
    s: "sanitize settings = Inr (c', h, m, study_days)" and ne: "study_days \<noteq> []"
    and p: "place_all c' h m (map lower study_days)
           \<lparr>schedule = empty_schedule, daily_hours_spent = (\<lambda>day. 0), day_idx = 0\<rparr>
           (sort_blocks blocks) = Inr st"
    and cd: "consolidate_days (schedule st) = Inr sch"
    by (rule generate_schedule_ScheduleE)
  from s assms(2) have c': "c' = Finite c"
    by (simp add: daily_capacity_hours_def)
  from ne have "placement_inv c' (map lower study_days)
      \<lparr>schedule = empty_schedule, daily_hours_spent = (\<lambda>day. 0), day_idx = 0\<rparr>"
    by (intro placement_inv_initial) simp
  with p have inv: "placement_inv c' (map lower study_days) st"
    by (rule place_all_inv)
  from consolidate_days_lookup [OF cd Some] obtain sessions where
    ss: "map_of (schedule st) day = Some sessions" and co: "consolidate sessions = Inr sessions'"
    by blast
  from inv ss have len: "length sessions = daily_hours_spent st day"
    and u: "\<forall>s\<in>set sessions. unit_session s"
    by (simp_all add: placement_inv_def)
  from inv c' have "daily_hours_spent st day = 0
      \<or> lt_float (daily_hours_spent st day - 1) (Finite c)"
    by (simp add: placement_inv_def)
  then have bound: "int (daily_hours_spent st day) \<le> max 0 \<lceil>c\<rceil>"
    by (rule spent_le_ceiling)
  from consolidate_hours [of "\<lambda>x. True" sessions, OF _ u] co
  have "hours_where (\<lambda>x. True) sessions' = int (blocks_where (\<lambda>x. True) sessions)"
    by auto
  then have "day_hours sessions' = int (length sessions)"
    by (simp add: hours_where_def blocks_where_def day_hours_def)
  with len bound Some show ?thesis
    by (simp add: sessions_on_def)
qed

lemma day_hours_at_most_two:
  "generate_schedule two_day_settings math_three_hours = Inr (Schedule two_day_schedule) \<and>
   daily_capacity_hours two_day_settings = Inr (Finite 2) \<and>
   day_hours (sessions_on two_day_schedule ''monday'') \<le> max 0 \<lceil>2 :: rat\<rceil>"
proof -
  have c: "daily_capacity_hours two_day_settings = Inr (Finite 2)"
    by code_simp
  from day_hours_within_capacity [OF scenario_monday_tuesday c, of "''monday''"]
    scenario_monday_tuesday c
  show ?thesis
    by simp
qed

subsection \<open>Hours scheduled and hours demanded\<close>








subsection \<open>Consolidating twice\<close>

lemma finalize_fields:
  assumes "finalize c = Inr s"
  shows "subject s = subject c" and "difficulty s = difficulty c"
    and "start_time s = start_time c" and "end_time s = end_time c"
  using assms by (auto simp: finalize_def split: sum.splits)

lemma finalize_again:
  assumes "finalize c = Inr s"
  shows "finalize s = Inr s"
  using assms by (auto simp: finalize_def split: sum.splits)

lemma merge_sessions_head:
  "merge_sessions cur rest = Inr out \<Longrightarrow>
   \<exists>s out'. out = s # out' \<and> start_time s = start_time cur \<and> subject s = subject cur
     \<and> difficulty s = difficulty cur"
proof (induction cur rest arbitrary: out rule: merge_sessions.induct)
  case (1 cur)
  then show ?case
    by (auto split: sum.splits dest: finalize_fields)
next
  case (2 cur nxt rest)
  show ?case
  proof (cases "py_eq (subject nxt) (subject cur) \<and> py_eq (difficulty nxt) (difficulty cur)
      \<and> start_time nxt = end_time cur")
    case True
    with "2.prems" have "merge_sessions (cur\<lparr>end_time := end_time nxt\<rparr>) rest = Inr out"
      by simp
    from "2.IH"(1) [OF True this] show ?thesis
      by simp
  next
    case False
    with "2.prems" show ?thesis
      by (auto split: sum.splits dest: finalize_fields)
  qed
qed

lemma merge_sessions_starts:
  "merge_sessions cur rest = Inr out \<Longrightarrow>
   set (map start_time out) \<subseteq> set (map start_time (cur # rest))"
proof (induction cur rest arbitrary: out rule: merge_sessions.induct)
  case (1 cur)
  then show ?case
    by (auto split: sum.splits dest: finalize_fields)
next
  case (2 cur nxt rest)
  show ?case
  proof (cases "py_eq (subject nxt) (subject cur) \<and> py_eq (difficulty nxt) (difficulty cur)
      \<and> start_time nxt = end_time cur")
    case True
    with "2.prems" have "merge_sessions (cur\<lparr>end_time := end_time nxt\<rparr>) rest = Inr out"
      by simp
    from "2.IH"(1) [OF True this] show ?thesis
      by auto
  next
    case False
    with "2.prems" obtain s out' where s: "finalize cur = Inr s"
      and m: "merge_sessions nxt rest = Inr out'" and out: "out = s # out'"
      by (auto split: sum.splits)
    from "2.IH"(2) [OF False s m] out finalize_fields(3) [OF s] show ?thesis
      by auto
  qed
qed

lemma merge_sessions_sorted:
  "merge_sessions cur rest = Inr out \<Longrightarrow> sorted (map start_time (cur # rest)) \<Longrightarrow>
   sorted (map start_time out)"
proof (induction cur rest arbitrary: out rule: merge_sessions.induct)
  case (1 cur)
  then show ?case
    by (auto split: sum.splits)
next
  case (2 cur nxt rest)
  show ?case
  proof (cases "py_eq (subject nxt) (subject cur) \<and> py_eq (difficulty nxt) (difficulty cur)
      \<and> start_time nxt = end_time cur")
    case True
    with "2.prems" have m: "merge_sessions (cur\<lparr>end_time := end_time nxt\<rparr>) rest = Inr out"
      by simp
    from "2.prems"(2) have "sorted (map start_time (cur\<lparr>end_time := end_time nxt\<rparr> # rest))"
      by auto
    with "2.IH"(1) [OF True m] show ?thesis
      by simp
  next
    case False
    with "2.prems" obtain s out' where s: "finalize cur = Inr s"
      and m: "merge_sessions nxt rest = Inr out'" and out: "out = s # out'"
      by (auto split: sum.splits)
    from "2.prems"(2) have tl: "sorted (map start_time (nxt # rest))"
      and le: "\<forall>t\<in>set (map start_time (nxt # rest)). start_time cur \<le> t"
      by auto
    from "2.IH"(2) [OF False s m tl] have "sorted (map start_time out')" .
    moreover from merge_sessions_starts [OF m] le
    have "\<forall>t\<in>set (map start_time out'). start_time cur \<le> t"
      by blast
    ultimately show ?thesis
      using out finalize_fields(3) [OF s] by simp
  qed
qed

lemma merge_sessions_fixpoint:
  "merge_sessions cur rest = Inr out \<Longrightarrow> merge_sessions (hd out) (tl out) = Inr out"
proof (induction cur rest arbitrary: out rule: merge_sessions.induct)
  case (1 cur)
  then show ?case
    by (auto split: sum.splits simp: finalize_again)
next
  case (2 cur nxt rest)
  show ?case
  proof (cases "py_eq (subject nxt) (subject cur) \<and> py_eq (difficulty nxt) (difficulty cur)
      \<and> start_time nxt = end_time cur")
    case True
    with "2.prems" have "merge_sessions (cur\<lparr>end_time := end_time nxt\<rparr>) rest = Inr out"
      by simp
    from "2.IH"(1) [OF True this] show ?thesis .
  next
    case False
    with "2.prems" obtain s out' where s: "finalize cur = Inr s"
      and m: "merge_sessions nxt rest = Inr out'" and out: "out = s # out'"
      by (auto split: sum.splits)
    from merge_sessions_head [OF m] obtain s' out'' where out': "out' = s' # out''"
      and same: "start_time s' = start_time nxt" "subject s' = subject nxt"
        "difficulty s' = difficulty nxt"
      by blast
    from "2.IH"(2) [OF False s m] out' have again: "merge_sessions s' out'' = Inr out'"
      by simp
    from False same finalize_fields [OF s]
    have "\<not> (py_eq (subject s') (subject s) \<and> py_eq (difficulty s') (difficulty s)
        \<and> start_time s' = end_time s)"
      by simp
    with again finalize_again [OF s] out out' show ?thesis
      by auto
  qed
qed

text \<open>
  C5. Consolidation is idempotent: when one pass over a day's sessions (the sort by start
  time, then the merge of neighbours of equal subject and difficulty where one ends when
  the next starts) returns a list, a second pass over that list returns the same list.
\<close>

theorem consolidate_idempotent:
  assumes "consolidate sessions = Inr consolidated"
  shows "consolidate consolidated = Inr consolidated"
proof (cases "sort_key start_time sessions")
  case Nil
  with assms show ?thesis
    by (simp add: consolidate_def)
next
  case (Cons first_session rest)
  with assms have m: "merge_sessions first_session rest = Inr consolidated"
    by (simp add: consolidate_def)
  have "sorted (map start_time (sort_key start_time sessions))"
    by (rule sorted_sort_key)
  with Cons have "sorted (map start_time (first_session # rest))"
    by simp
  with m have "sorted (map start_time consolidated)"
    by (rule merge_sessions_sorted)
  then have id: "sort_key start_time consolidated = consolidated"
    by (rule sort_key_id_if_sorted)
  from merge_sessions_head [OF m] obtain s out' where out: "consolidated = s # out'"
    by blast
  with merge_sessions_fixpoint [OF m] have "merge_sessions s out' = Inr consolidated"
    by simp
  with id out show ?thesis
    by (simp add: consolidate_def)
qed

theorem consolidate_idempotent_witness:
  "consolidate unsorted_day = Inr consolidated_day \<and>
   consolidate consolidated_day = Inr consolidated_day"
proof -
  have h: "consolidate unsorted_day = Inr consolidated_day"
    by code_simp
  from consolidate_idempotent [OF h] h show ?thesis
    by simp
qed

subsection \<open>Days that are not active\<close>

text \<open>
  C6. Whenever the call returns a schedule, the schedule has an entry for each of the
  seven weekdays, in their order, and every weekday that is not among the active days
  holds the empty session list.
\<close>

theorem inactive_days_stay_empty:
  assumes "generate_schedule settings subjects = Inr (Schedule sch)"
    and "active_days settings = Inr days"
  shows "map fst sch = weekdays \<and>
         (\<forall>day\<in>set weekdays. day \<notin> set days \<longrightarrow> sessions_on sch day = [])"
proof -
  from assms(1) obtain c h m study_days blocks st where
    s: "sanitize settings = Inr (c, h, m, study_days)" and ne: "study_days \<noteq> []"
    and p: "place_all c h m (map lower study_days)
           \<lparr>schedule = empty_schedule, daily_hours_spent = (\<lambda>day. 0), day_idx = 0\<rparr>
           (sort_blocks blocks) = Inr st"
    and cd: "consolidate_days (schedule st) = Inr sch"
    by (rule generate_schedule_ScheduleE)
  from s assms(2) have days: "days = map lower study_days"
    by (simp add: active_days_def)
  have "map fst sch = weekdays"
    using consolidate_days_keys [OF cd] place_all_keys [OF p]
    by (simp add: keys_empty_schedule)
  moreover have "sessions_on sch day = []" if "day \<in> set weekdays" "day \<notin> set days" for day
  proof -
    from ne have "day_idx \<lparr>schedule = empty_schedule, daily_hours_spent = (\<lambda>day. 0), day_idx = 0\<rparr>
        < length (map lower study_days)"
      by simp
    from place_all_other_day [OF p this] that(2) days
    have "map_of (schedule st) day = map_of empty_schedule day"
      by simp
    with that(1) have "map_of (schedule st) day = Some []"
      by (simp add: map_of_empty_schedule)
    with cd have "map_of sch day = Some []"
      by (rule consolidate_days_empty_day)
    then show ?thesis
      by (simp add: sessions_on_def)
  qed
  ultimately show ?thesis
    by blast
qed


theorem inactive_days_stay_empty_witness:
  "generate_schedule two_day_settings math_three_hours = Inr (Schedule two_day_schedule) \<and>
   active_days two_day_settings = Inr [''monday'', ''tuesday''] \<and>
   map fst two_day_schedule = weekdays \<and>
   sessions_on two_day_schedule ''wednesday'' = []"
proof -
  have "''wednesday'' \<in> set weekdays" and "''wednesday'' \<notin> set [''monday'', ''tuesday'']"
    by (simp_all add: weekdays_def)
  with inactive_days_stay_empty [OF scenario_monday_tuesday active_days_two_day_settings]
  show ?thesis
    using scenario_monday_tuesday active_days_two_day_settings by blast
qed

subsection \<open>Subjects that cannot be read\<close>







subsection \<open>A subject without hours\<close>

text \<open>
  C10. An entry without the key \<^verbatim>\<open>total_hours\<close> is given one hour. It is still skipped
  when its difficulty cannot be hashed: the lookup of the priority raises \<^verbatim>\<open>TypeError\<close>
  inside the same \<^verbatim>\<open>try\<close>, and no block is emitted.
\<close>

theorem missing_hours_unhashable_difficulty:
  "map_of listed_art ''total_hours'' = None \<and>
   subject_blocks listed_art = Inl TypeError \<and>
   make_blocks [listed_art] = Inr [] \<and>
   generate_schedule monday_settings [listed_art] = Inr (Schedule empty_schedule)"
  by code_simp

text \<open>
  C10, amended. For every subject entry that lacks the key \<^verbatim>\<open>total_hours\<close> and whose
  difficulty can be hashed (any value but a list or a mapping, or no value), the hours
  default to 1 and exactly one one-hour block is emitted for it: it is neither skipped
  nor treated as zero hours.
\<close>

theorem missing_hours_one_block:
  assumes "map_of subj ''total_hours'' = None" and "hashable (difficulty_of subj)"
  shows "rounded_total_hours subj = Some 1 \<and> demanded_hours subj = 1 \<and>
    (\<exists>p. difficulty_order (difficulty_of subj) = Inr p \<and>
       subject_blocks subj
         = Inr [\<lparr>subject = subject_name_of subj, difficulty = difficulty_of subj,
                 priority = p\<rparr>])"
proof -
  have r: "round_half_even 1 = 1"
    by code_simp
  from assms(1) have "dict_get subj ''total_hours'' (PInt 1) = PInt 1"
    by (simp add: dict_get_def)
  with assms(2) r show ?thesis
    by (simp add: rounded_total_hours_def demanded_hours_def subject_blocks_def
        difficulty_order_def difficulty_of_def subject_name_of_def)
qed

theorem missing_hours_one_block_witness:
  "map_of plain_art ''total_hours'' = None \<and> hashable (difficulty_of plain_art) \<and>
   rounded_total_hours plain_art = Some 1 \<and> demanded_hours plain_art = 1 \<and>
   subject_blocks plain_art
     = Inr [\<lparr>subject = PStr ''Art'', difficulty = PStr ''Medium'', priority = 2\<rparr>]"
proof -
  have a: "map_of plain_art ''total_hours'' = None"
    by code_simp
  have b: "hashable (difficulty_of plain_art)"
    by code_simp
  have c: "difficulty_order (difficulty_of plain_art) = Inr 2"
    "subject_name_of plain_art = PStr ''Art''" "difficulty_of plain_art = PStr ''Medium''"
    by code_simp+
  from missing_hours_one_block [OF a b] c a b show ?thesis
    by auto
qed

section \<open>Properties of the daily recommendation\<close>


lemma clamp_steps: "(let daily = (if x < 1 / 4 then 1 / 4 else x) in if 12 < daily then 12 else daily) = clamp x"
  by (auto simp: clamp_def Let_def max_def min_def)




section \<open>Properties of the scheduler over the store\<close>

lemma keeps_refl: "keeps h h"
  by (simp add: keeps_def)

lemma keeps_alloc:
  assumes "keeps base h" and "fresh_refs (length base) ob" and "alloc ob h = (a, h1)"
  shows "keeps base h1" and "length base \<le> a"
  using assms by (auto simp: keeps_def alloc_def nth_append)

lemma keeps_update:
  assumes "keeps base h" and "length base \<le> a" and "fresh_refs (length base) ob"
  shows "keeps base (h[a := ob])"
proof (cases "a < length h")
  case True
  with assms show ?thesis
    by (auto simp: keeps_def nth_list_update)
next
  case False
  then have "h[a := ob] = h"
    by (intro list_update_beyond) simp
  with assms(1) show ?thesis
    by simp
qed

lemma sequence_at_fresh:
  assumes "keeps base h" and "length base \<le> a"
  shows "\<forall>r\<in>set (sequence_at h a). length base \<le> r"
proof (cases "a < length h")
  case True
  with assms have "fresh_refs (length base) (h ! a)"
    by (simp add: keeps_def)
  with True show ?thesis
    by (auto simp: sequence_at_def object_at_def fresh_refs_def split: obj.splits)
next
  case False
  then show ?thesis
    by (simp add: sequence_at_def object_at_def)
qed

lemma table_at_fresh:
  assumes "keeps base h" and "length base \<le> a"
  shows "\<forall>r\<in>snd ` set (table_at h a). length base \<le> r"
proof (cases "a < length h")
  case True
  with assms have "fresh_refs (length base) (h ! a)"
    by (simp add: keeps_def)
  with True show ?thesis
    by (auto simp: table_at_def object_at_def fresh_refs_def split: obj.splits)
next
  case False
  then show ?thesis
    by (simp add: table_at_def object_at_def)
qed

lemma keeps_append_to:
  assumes "keeps base h" and "length base \<le> xs" and "length base \<le> x"
  shows "keeps base (append_to xs x h)"
  unfolding append_to_def
  using assms sequence_at_fresh [OF assms(1,2)]
  by (intro keeps_update) (auto simp: fresh_refs_def)

lemma keeps_sort_at:
  assumes "keeps base h" and "length base \<le> xs"
  shows "keeps base (sort_at key xs h)"
  unfolding sort_at_def
  using assms sequence_at_fresh [OF assms(1,2)]
  by (intro keeps_update) (auto simp: fresh_refs_def)

lemma keeps_set_item:
  assumes "keeps base h" and "length base \<le> d"
  shows "keeps base (set_item d key v h)"
  unfolding set_item_def
  using assms by (intro keeps_update) (auto simp: fresh_refs_def)

lemma snd_set_update: "snd ` set (AList.update k v al) \<subseteq> insert v (snd ` set al)"
  by (induction al) auto

lemma keeps_set_entry:
  assumes "keeps base h" and "length base \<le> d" and "length base \<le> x"
  shows "keeps base (set_entry d key x h)"
proof -
  have "\<forall>r\<in>snd ` set (AList.update key x (table_at h d)). length base \<le> r"
    using assms(3) table_at_fresh [OF assms(1,2)] snd_set_update [of key x "table_at h d"]
    by blast
  then have "fresh_refs (length base) (Table (AList.update key x (table_at h d)))"
    by (simp add: fresh_refs_def)
  with assms(1,2) show ?thesis
    unfolding set_entry_def by (intro keeps_update)
qed

lemma keeps_counter:
  assumes "keeps base h" and "length base \<le> sp"
  shows "keeps base (h[sp := Counter c])"
  using assms by (intro keeps_update) (auto simp: fresh_refs_def)

lemma keeps_touch:
  assumes "keeps base h" and "length base \<le> sp"
  shows "keeps base (touch sp day h)"
  using assms by (auto simp: touch_def keeps_counter split: option.splits)

lemma keeps_append_blocks:
  "keeps base h \<Longrightarrow> length base \<le> study_blocks \<Longrightarrow>
   keeps base (append_blocks bs study_blocks h)"
proof (induction bs arbitrary: h)
  case Nil
  then show ?case by simp
next
  case (Cons b bs)
  obtain a h1 where a: "alloc (Mapping (block_mapping b)) h = (a, h1)"
    by (cases "alloc (Mapping (block_mapping b)) h")
  have "fresh_refs (length base) (Mapping (block_mapping b))"
    by (simp add: fresh_refs_def)
  from keeps_alloc [OF Cons.prems(1) this a]
  have "keeps base (append_to study_blocks a h1)"
    using Cons.prems(2) by (intro keeps_append_to)
  with Cons.IH Cons.prems(2) a show ?case
    by simp
qed

lemma keeps_blocks_loop:
  "keeps base h \<Longrightarrow> length base \<le> study_blocks \<Longrightarrow>
   keeps base (snd (blocks_loop subject_refs study_blocks h))"
proof (induction subject_refs arbitrary: h)
  case Nil
  then show ?case by simp
next
  case (Cons subj rest)
  then show ?case
    by (auto simp: keeps_append_blocks split: option.splits obj.splits sum.splits exn.splits)
qed

lemma keeps_alloc_lists:
  "keeps base h \<Longrightarrow> alloc_lists days h = (t, h') \<Longrightarrow>
   keeps base h' \<and> (\<forall>r\<in>snd ` set t. length base \<le> r)"
proof (induction days arbitrary: h t h')
  case Nil
  then show ?case by simp
next
  case (Cons day days)
  obtain a h1 where a: "alloc (Sequence []) h = (a, h1)"
    by (cases "alloc (Sequence []) h")
  obtain t2 h2 where r: "alloc_lists days h1 = (t2, h2)"
    by (cases "alloc_lists days h1")
  have "fresh_refs (length base) (Sequence [])"
    by (simp add: fresh_refs_def)
  from keeps_alloc [OF Cons.prems(1) this a] have k1: "keeps base h1" and a': "length base \<le> a" .
  from Cons.IH [OF k1 r] a' Cons.prems(2) a r show ?case
    by auto
qed

lemma keeps_find_day_store:
  "keeps base h \<Longrightarrow> length base \<le> sp \<Longrightarrow>
   keeps base (snd (find_day_store c dc sp k i h))"
proof (induction k arbitrary: i h)
  case 0
  then show ?case by simp
next
  case (Suc k)
  from Suc.prems have "keeps base (touch sp (dc ! i) h)"
    by (intro keeps_touch)
  with Suc.IH Suc.prems(2) show ?case
    by (simp add: Let_def)
qed

lemma keeps_place_block_store:
  assumes "keeps base h" and "length base \<le> sched" and "length base \<le> sp"
    and "length base \<le> b"
  shows "keeps base (snd (place_block_store c sh sm dc sched sp b i h))"
proof (cases "find_day_store c dc sp (length dc) i h")
  case (Pair found h1)
  from keeps_find_day_store [OF assms(1,3), of c dc "length dc" i] Pair
  have k1: "keeps base h1"
    by simp
  obtain day j where found: "found = (day, j)"
    by (cases found)
  show ?thesis
  proof (cases day)
    case None
    with Pair found k1 show ?thesis
      by (simp add: place_block_store_def)
  next
    case (Some d)
    define h2 where "h2 = set_item b ''start_time''
      (PStr (format_time (sh + int (spent_at h1 sp d)) sm)) h1"
    define h3 where "h3 = set_item b ''end_time''
      (PStr (format_time (sh + int (spent_at h1 sp d) + 1) sm)) h2"
    from k1 assms(4) have k3: "keeps base h3"
      unfolding h3_def h2_def by (intro keeps_set_item)
    show ?thesis
    proof (cases "map_of (table_at h3 sched) d")
      case None
      with Pair found Some k3 show ?thesis
        by (simp add: place_block_store_def Let_def h2_def h3_def)
    next
      case (Some l)
      then have "l \<in> snd ` set (table_at h3 sched)"
        by (force dest: map_of_SomeD)
      with table_at_fresh [OF k3 assms(2)] have l: "length base \<le> l"
        by blast
      from k3 l assms(4) have "keeps base (append_to l b h3)"
        by (intro keeps_append_to)
      then have "keeps base ((append_to l b h3)[sp := Counter (AList.update d
          (spent_at (append_to l b h3) sp d + 1) (counter_at (append_to l b h3) sp))])"
        using assms(3) by (intro keeps_counter)
      with Pair found \<open>day = Some d\<close> Some show ?thesis
        by (simp add: place_block_store_def Let_def h2_def h3_def)
    qed
  qed
qed

lemma keeps_place_loop:
  "keeps base h \<Longrightarrow> length base \<le> sched \<Longrightarrow> length base \<le> sp \<Longrightarrow>
   \<forall>b\<in>set bs. length base \<le> b \<Longrightarrow>
   keeps base (snd (place_loop c sh sm dc sched sp bs i h))"
proof (induction bs arbitrary: i h)
  case Nil
  then show ?case by simp
next
  case (Cons b bs)
  from Cons.prems have "keeps base (snd (place_block_store c sh sm dc sched sp b i h))"
    by (intro keeps_place_block_store) simp_all
  with Cons.IH Cons.prems(2,3,4) show ?case
    by (auto split: prod.splits sum.splits)
qed

lemma keeps_finalize_store:
  assumes "keeps base h" and "length base \<le> cur"
  shows "keeps base (snd (finalize_store cur h))"
  using assms by (auto simp: finalize_store_def keeps_set_item split: sum.splits)

lemma keeps_merge_store:
  "keeps base h \<Longrightarrow> length base \<le> cur \<Longrightarrow> length base \<le> consolidated \<Longrightarrow>
   keeps base (snd (merge_store cur rest consolidated h))"
proof (induction rest arbitrary: cur h)
  case Nil
  from keeps_finalize_store [OF Nil(1,2)] Nil(2,3) show ?case
    by (auto split: prod.splits option.splits intro: keeps_append_to)
next
  case (Cons nxt rest)
  show ?case
  proof (cases "py_eq (item_at h nxt ''subject'') (item_at h cur ''subject'')
         \<and> py_eq (item_at h nxt ''difficulty'') (item_at h cur ''difficulty'')
         \<and> text_at h nxt ''start_time'' = text_at h cur ''end_time''")
    case True
    from Cons.prems(1,2)
    have "keeps base (set_item cur ''end_time'' (item_at h nxt ''end_time'') h)"
      by (intro keeps_set_item)
    from Cons.IH [OF this Cons.prems(2,3)] True show ?thesis
      by simp
  next
    case False
    obtain e h1 where f: "finalize_store cur h = (e, h1)"
      by (cases "finalize_store cur h")
    with keeps_finalize_store [OF Cons.prems(1,2)] have k1: "keeps base h1"
      by simp
    have unfold: "merge_store cur (nxt # rest) consolidated h =
        (case finalize_store cur h of
           (Some e, h1) \<Rightarrow> (Some e, h1)
         | (None, h1) \<Rightarrow>
             (case alloc (Mapping (mapping_at h1 nxt)) (append_to consolidated cur h1) of
                (c, h2) \<Rightarrow> merge_store c rest consolidated h2))"
      by (simp only: merge_store.simps False if_False)
    show ?thesis
    proof (cases e)
      case (Some x)
      with f k1 unfold show ?thesis
        by simp
    next
      case None
      obtain c h2 where a: "alloc (Mapping (mapping_at h1 nxt)) (append_to consolidated cur h1)
          = (c, h2)"
        by (cases "alloc (Mapping (mapping_at h1 nxt)) (append_to consolidated cur h1)")
      from k1 Cons.prems(2,3) have "keeps base (append_to consolidated cur h1)"
        by (intro keeps_append_to)
      moreover have "fresh_refs (length base) (Mapping (mapping_at h1 nxt))"
        by (simp add: fresh_refs_def)
      ultimately have "keeps base h2" and "length base \<le> c"
        using a by (rule keeps_alloc)+
      from Cons.IH [OF this Cons.prems(3)] f None a unfold show ?thesis
        by simp
    qed
  qed
qed

lemma keeps_days_loop:
  "keeps base h \<Longrightarrow> length base \<le> final_schedule \<Longrightarrow> \<forall>r\<in>snd ` set t. length base \<le> r \<Longrightarrow>
   keeps base (snd (days_loop t final_schedule h))"
proof (induction t arbitrary: h)
  case Nil
  then show ?case by simp
next
  case (Cons entry t)
  obtain day sessions where entry: "entry = (day, sessions)"
    by (cases entry)
  with Cons.prems(3) have l: "length base \<le> sessions" and t: "\<forall>r\<in>snd ` set t. length base \<le> r"
    by simp_all
  have seq: "fresh_refs (length base) (Sequence [])"
    by (simp add: fresh_refs_def)
  show ?case
  proof (cases "sequence_at h sessions = []")
    case True
    obtain a h1 where a: "alloc (Sequence []) h = (a, h1)"
      by (cases "alloc (Sequence []) h")
    from keeps_alloc [OF Cons.prems(1) seq a] Cons.prems(2)
    have "keeps base (set_entry final_schedule day a h1)"
      by (intro keeps_set_entry)
    from Cons.IH [OF this Cons.prems(2) t] True a entry show ?thesis
      by simp
  next
    case False
    define h1 where "h1 = sort_at (\<lambda>a. text_at h a ''start_time'') sessions h"
    from Cons.prems(1) l have k1: "keeps base h1"
      unfolding h1_def by (intro keeps_sort_at)
    obtain consolidated h2 where a2: "alloc (Sequence []) h1 = (consolidated, h2)"
      by (cases "alloc (Sequence []) h1")
    from keeps_alloc [OF k1 seq a2] have k2: "keeps base h2" and c: "length base \<le> consolidated" .
    obtain cur h3 where a3: "alloc (Mapping (mapping_at h2 (hd (sequence_at h2 sessions)))) h2
        = (cur, h3)"
      by (cases "alloc (Mapping (mapping_at h2 (hd (sequence_at h2 sessions)))) h2")
    have "fresh_refs (length base) (Mapping (mapping_at h2 (hd (sequence_at h2 sessions))))"
      by (simp add: fresh_refs_def)
    from keeps_alloc [OF k2 this a3] have k3: "keeps base h3" and cur: "length base \<le> cur" .
    obtain e h4 where m: "merge_store cur (tl (sequence_at h2 sessions)) consolidated h3 = (e, h4)"
      by (cases "merge_store cur (tl (sequence_at h2 sessions)) consolidated h3")
    with keeps_merge_store [OF k3 cur c, of "tl (sequence_at h2 sessions)"]
    have k4: "keeps base h4"
      by simp
    show ?thesis
    proof (cases e)
      case (Some x)
      with False entry a2 a3 m k4 show ?thesis
        by (simp add: Let_def h1_def)
    next
      case None
      from k4 Cons.prems(2) c have "keeps base (set_entry final_schedule day consolidated h4)"
        by (intro keeps_set_entry)
      from Cons.IH [OF this Cons.prems(2) t] False entry a2 a3 m None show ?thesis
        by (simp add: Let_def h1_def)
    qed
  qed
qed

lemma keeps_generate_schedule_store: "keeps h (snd (generate_schedule_store h settings subjects))"
proof (cases "object_at h settings")
  case None
  then show ?thesis
    by (simp add: generate_schedule_store_def keeps_refl)
next
  case (Some ob)
  show ?thesis
  proof (cases ob)
    case (Mapping d)
    show ?thesis
    proof (cases "sanitize d")
      case (Inl e)
      with Some Mapping show ?thesis
        by (simp add: generate_schedule_store_def keeps_refl)
    next
      case (Inr r)
      obtain c sh sm study_days where r: "r = (c, sh, sm, study_days)"
        by (cases r)
      show ?thesis
      proof (cases "study_days = []")
        case True
        obtain a h1 where a: "alloc (Mapping [(''error'', PStr ''No study days selected.'')]) h
            = (a, h1)"
          by (cases "alloc (Mapping [(''error'', PStr ''No study days selected.'')]) h")
        have "fresh_refs (length h) (Mapping [(''error'', PStr ''No study days selected.'')])"
          by (simp add: fresh_refs_def)
        from keeps_alloc(1) [OF keeps_refl this a] have "keeps h h1" .
        with True Some Mapping Inr r a show ?thesis
          by (simp add: generate_schedule_store_def)
      next
        case False
        obtain sb h1 where a1: "alloc (Sequence []) h = (sb, h1)"
          by (cases "alloc (Sequence []) h")
        have seq: "fresh_refs (length h) (Sequence [])"
          by (simp add: fresh_refs_def)
        from keeps_alloc [OF keeps_refl seq a1] have k1: "keeps h h1" and sb: "length h \<le> sb" .
        obtain e h2 where b: "blocks_loop (sequence_at h1 subjects) sb h1 = (e, h2)"
          by (cases "blocks_loop (sequence_at h1 subjects) sb h1")
        with keeps_blocks_loop [OF k1 sb, of "sequence_at h1 subjects"] have k2: "keeps h h2"
          by simp
        show ?thesis
        proof (cases e)
          case (Some x)
          with \<open>object_at h settings = Some ob\<close> Mapping Inr r False a1 b k2 show ?thesis
            by (simp add: generate_schedule_store_def)
        next
          case None
          define h2s where "h2s = sort_at (\<lambda>a. - priority_at h2 a) sb h2"
          from k2 sb have k2s: "keeps h h2s"
            unfolding h2s_def by (intro keeps_sort_at)
          obtain t h3 where al: "alloc_lists weekdays h2s = (t, h3)"
            by (cases "alloc_lists weekdays h2s")
          from keeps_alloc_lists [OF k2s al] have k3: "keeps h h3"
            and t: "\<forall>r\<in>snd ` set t. length h \<le> r"
            by simp_all
          obtain sched h4 where a4: "alloc (Table t) h3 = (sched, h4)"
            by (cases "alloc (Table t) h3")
          from t have "fresh_refs (length h) (Table t)"
            by (simp add: fresh_refs_def)
          from keeps_alloc [OF k3 this a4] have k4: "keeps h h4" and sched: "length h \<le> sched" .
          obtain sp h5 where a5: "alloc (Counter []) h4 = (sp, h5)"
            by (cases "alloc (Counter []) h4")
          have "fresh_refs (length h) (Counter [])"
            by (simp add: fresh_refs_def)
          from keeps_alloc [OF k4 this a5] have k5: "keeps h h5" and sp: "length h \<le> sp" .
          obtain e6 h6 where p: "place_loop c sh sm (map lower study_days) sched sp
              (sequence_at h5 sb) 0 h5 = (e6, h6)"
            by (cases "place_loop c sh sm (map lower study_days) sched sp (sequence_at h5 sb) 0 h5")
          from keeps_place_loop [OF k5 sched sp sequence_at_fresh [OF k5 sb],
              of c sh sm "map lower study_days" 0] p
          have k6: "keeps h h6"
            by simp
          show ?thesis
          proof (cases e6)
            case (Some x)
            with \<open>object_at h settings = Some ob\<close> Mapping Inr r False a1 b None al a4 a5 p k6
            show ?thesis
              by (simp add: generate_schedule_store_def h2s_def)
          next
            case None6: None
            obtain final h7 where a7: "alloc (Table []) h6 = (final, h7)"
              by (cases "alloc (Table []) h6")
            have "fresh_refs (length h) (Table [])"
              by (simp add: fresh_refs_def)
            from keeps_alloc [OF k6 this a7] have k7: "keeps h h7" and final: "length h \<le> final" .
            from keeps_days_loop [OF k7 final table_at_fresh [OF k7 sched]]
            have "keeps h (snd (days_loop (table_at h7 sched) final h7))" .
            with \<open>object_at h settings = Some ob\<close> Mapping Inr r False a1 b None al a4 a5 p
              None6 a7
            show ?thesis
              by (auto simp: generate_schedule_store_def h2s_def split: prod.splits option.splits)
          qed
        qed
      qed
    qed
  qed (use Some in \<open>simp_all add: generate_schedule_store_def keeps_refl\<close>)
qed

lemma two_day_store_schedule:
  "(case generate_schedule_store two_day_store 0 1 of
      (Inr r, h) \<Rightarrow> read_schedule h r
    | (Inl e, h) \<Rightarrow> [])
   = [(''monday'',
       [[(''subject'', PStr ''Math''), (''difficulty'', PStr ''Hard''), (''priority'', PInt 3),
         (''start_time'', PStr ''09:00''), (''end_time'', PStr ''11:00''),
         (''duration_hs'', PInt 2)]]),
      (''tuesday'',
       [[(''subject'', PStr ''Math''), (''difficulty'', PStr ''Hard''), (''priority'', PInt 3),
         (''start_time'', PStr ''09:00''), (''end_time'', PStr ''10:00''),
         (''duration_hs'', PInt 1)]]),
      (''wednesday'', []), (''thursday'', []), (''friday'', []), (''saturday'', []),
      (''sunday'', [])]"
  by code_simp

text \<open>
  C7. The call is a function of the store and of the two references it is given, so two
  calls on the same arguments return the same result; nothing in the function draws a
  random number (the module imports \<^verbatim>\<open>random\<close> and never calls it). And the call
  modifies no object that existed before it, the settings and the subjects among them:
  whatever it returns or raises, the store it leaves begins with the store it was given.
  Every object it changes is one it created.
\<close>

theorem arguments_unchanged:
  assumes "generate_schedule_store h settings subjects = (r, h')"
  shows "length h \<le> length h' \<and> take (length h) h' = h"
  using keeps_generate_schedule_store [of h settings subjects] assms
  by (simp add: keeps_def)

theorem arguments_unchanged_witness:
  "(case generate_schedule_store two_day_store 0 1 of
      (r, h') \<Rightarrow> length two_day_store \<le> length h' \<and> take (length two_day_store) h' = two_day_store)"
proof -
  obtain r h' where c: "generate_schedule_store two_day_store 0 1 = (r, h')"
    by (cases "generate_schedule_store two_day_store 0 1")
  from arguments_unchanged [OF c] c show ?thesis
    by simp
qed

end
